theory Spec2Isabelle
  imports Main "HOL-Library.Word" "HOL-Library.Signed_Division"
begin

section \<open>Nickel: the node model\<close>

text \<open>
  A shallow embedding of \<^verbatim>\<open>nickel.c\<close>. A node is the C struct \<^verbatim>\<open>Node\<close>: a kind tag
  and a payload. The payload of a string or name node is the buffer its pointer refers to;
  C reads such a buffer as a string, that is up to its first NUL byte (\<open>c_str\<close>).
  Integers are \<^verbatim>\<open>long long\<close>, here 64-bit words read with \<open>sint\<close>.
\<close>

datatype Node =
    INVALID
  | PROGRAM (children: "Node list")
  | LIST (children: "Node list")
  | INT_ATOM (integer: "64 word")
  | STRING_ATOM (string: string)
  | NAME_ATOM (name: string)

datatype kind = K_INVALID | K_PROGRAM | K_LIST | K_INT_ATOM | K_STRING_ATOM | K_NAME_ATOM

fun kind_of :: "Node \<Rightarrow> kind" where
  "kind_of INVALID = K_INVALID"
| "kind_of (PROGRAM _) = K_PROGRAM"
| "kind_of (LIST _) = K_LIST"
| "kind_of (INT_ATOM _) = K_INT_ATOM"
| "kind_of (STRING_ATOM _) = K_STRING_ATOM"
| "kind_of (NAME_ATOM _) = K_NAME_ATOM"

text \<open>Every \<^verbatim>\<open>ERROR(...)\<close> of the source: the diagnostic printed before \<^verbatim>\<open>exit\<close>.\<close>

datatype error =
    E_bad_integer "32 word"
  | E_expected_closing_bracket "32 word"
  | E_expected_closing_quote "32 word"
  | E_unexpected_character "32 word" char
  | E_arity string int int
  | E_incorrect_type string int
  | E_if_expects
  | E_if_condition
  | E_define_expects
  | E_format_missing_argument
  | E_no_function
  | E_expected_function_name
  | E_car_empty
  | E_fmt_expects
  | E_fmt_first
  | E_pfmt_expects
  | E_pfmt_first
  | E_unknown_function string
  | E_bad_node
  | E_argument_reference_outside
  | E_argument_index_unparsable string
  | E_argument_reference_invalid int

text \<open>
  What a call does: it returns, it leaves the process through \<^verbatim>\<open>ERROR\<close>, it runs into
  behaviour C leaves undefined (a read outside an array, a division by zero, a write
  past a buffer), or the recursion is deeper than the bound given to the model.
\<close>

datatype 'a outcome = Return 'a | Exit error | Undefined | OutOfFuel

abbreviation NUL :: char where "NUL \<equiv> CHR 0x00"

definition c_str :: "string \<Rightarrow> string" where
  "c_str s = takeWhile (\<lambda>c. c \<noteq> NUL) s"

definition isspace_c :: "char \<Rightarrow> bool" where
  "isspace_c c = (c = CHR '' '' \<or> c = CHR 0x09 \<or> c = CHR 0x0A \<or> c = CHR 0x0B
                  \<or> c = CHR 0x0C \<or> c = CHR 0x0D)"

definition isdigit_c :: "char \<Rightarrow> bool" where
  "isdigit_c c = (48 \<le> (of_char c :: nat) \<and> (of_char c :: nat) \<le> 57)"

definition isalpha_c :: "char \<Rightarrow> bool" where
  "isalpha_c c = ((65 \<le> (of_char c :: nat) \<and> (of_char c :: nat) \<le> 90)
                  \<or> (97 \<le> (of_char c :: nat) \<and> (of_char c :: nat) \<le> 122))"

subsection \<open>copy_node\<close>

text \<open>
  \<^verbatim>\<open>copy_node\<close> has no case for \<^verbatim>\<open>INVALID\<close> and \<^verbatim>\<open>PROGRAM\<close>: it returns its local
  \<^verbatim>\<open>new\<close> uninitialised, so there is no result (\<open>None\<close>). Strings and names are copied
  with \<^verbatim>\<open>strdup\<close>, which stops at the first NUL.
\<close>

fun copy_node :: "Node \<Rightarrow> Node option" where
  "copy_node (INT_ATOM i) = Some (INT_ATOM i)"
| "copy_node (STRING_ATOM s) = Some (STRING_ATOM (c_str s))"
| "copy_node (NAME_ATOM s) = Some (NAME_ATOM (c_str s))"
| "copy_node (LIST cs) = map_option LIST (those (map copy_node cs))"
| "copy_node INVALID = None"
| "copy_node (PROGRAM cs) = None"

definition copy_nodes :: "Node list \<Rightarrow> Node list option" where
  "copy_nodes xs = those (map copy_node xs)"

subsection \<open>The printer\<close>

fun digits_of :: "nat \<Rightarrow> string" where
  "digits_of n =
     (if n < 10 then [char_of (48 + n)] else digits_of (n div 10) @ [char_of (48 + n mod 10)])"

declare digits_of.simps [simp del]

text \<open>\<^verbatim>\<open>snprintf(buff, sizeof(buff), "%lld", i)\<close>: at most 20 bytes, so the buffer holds it.\<close>

definition lld :: "64 word \<Rightarrow> string" where
  "lld w = (if sint w < 0 then CHR ''-'' # digits_of (nat (- sint w)) else digits_of (nat (sint w)))"

fun node_to_string :: "Node \<Rightarrow> string" where
  "node_to_string (PROGRAM cs) = concat (map (\<lambda>c. node_to_string c @ [CHR 0x0A]) cs)"
| "node_to_string (LIST cs) =
     ''[ '' @ concat (map (\<lambda>c. node_to_string c @ '' '') cs) @ '']''"
| "node_to_string (INT_ATOM i) = lld i"
| "node_to_string (STRING_ATOM s) = c_str s"
| "node_to_string (NAME_ATOM s) = ''<name '' @ c_str s @ ''>''"
| "node_to_string INVALID = []"

section \<open>The parser\<close>

subsection \<open>strtoll\<close>

text \<open>
  The C library's \<^verbatim>\<open>strtoll(s, &end, 10)\<close>: white space, an optional sign, the longest
  run of decimal digits; the value is clamped to the range of \<^verbatim>\<open>long long\<close>. The result is
  the value and the number of bytes consumed, 0 when no digit was found
  (\<^verbatim>\<open>end == s\<close>).
\<close>

definition digit_val :: "char \<Rightarrow> nat" where
  "digit_val c = of_char c - 48"

fun digits_value :: "nat \<Rightarrow> string \<Rightarrow> nat" where
  "digits_value acc [] = acc"
| "digits_value acc (c # cs) = digits_value (acc * 10 + digit_val c) cs"

definition LLONG_MAX :: int where "LLONG_MAX = 2 ^ 63 - 1"
definition LLONG_MIN :: int where "LLONG_MIN = - (2 ^ 63)"

definition strtoll :: "string \<Rightarrow> 64 word \<times> nat" where
  "strtoll s =
     (let ws = takeWhile isspace_c s;
          s1 = dropWhile isspace_c s;
          neg = (case s1 of c # _ \<Rightarrow> c = CHR ''-'' | [] \<Rightarrow> False);
          sgn = (case s1 of c # _ \<Rightarrow> if c = CHR ''-'' \<or> c = CHR ''+'' then 1 else 0 | [] \<Rightarrow> 0);
          ds = takeWhile isdigit_c (drop sgn s1);
          v = int (digits_value 0 ds)
      in if ds = [] then (0, 0)
         else (of_int (max LLONG_MIN (min LLONG_MAX (if neg then - v else v))),
               length ws + sgn + length ds))"

subsection \<open>The cursor\<close>

text \<open>
  The parser's globals: \<^verbatim>\<open>cursor\<close>, here the bytes from the cursor on, and \<^verbatim>\<open>line\<close>.
  The end of the list stands for the NUL that ends the text.
\<close>

record pstate =
  cursor :: string
  line :: "32 word"

definition peek :: "string \<Rightarrow> char" where
  "peek cur = (case cur of [] \<Rightarrow> NUL | c # _ \<Rightarrow> c)"

fun skip_space :: "string \<Rightarrow> 32 word \<Rightarrow> string \<times> 32 word" where
  "skip_space [] l = ([], l)"
| "skip_space (c # cs) l =
     (if c \<noteq> NUL \<and> isspace_c c then skip_space cs (if c = CHR 0x0A then l + 1 else l)
      else (c # cs, l))"

function skip_comments :: "string \<Rightarrow> 32 word \<Rightarrow> string \<times> 32 word" where
  "skip_comments cur l =
     (if peek cur = CHR '';'' then
        (case skip_space (dropWhile (\<lambda>c. c \<noteq> NUL \<and> c \<noteq> CHR 0x0A) cur) l of
           (cur', l') \<Rightarrow> skip_comments cur' l')
      else (cur, l))"
  by pat_completeness auto
termination
proof (relation "measure (\<lambda>(cur, l). length cur)")
  show "wf (measure (\<lambda>(cur, l). length cur))" by simp
next
  fix cur :: string and l :: "32 word" and x y
  assume semi: "peek cur = CHR '';''"
    and sk: "(x, y) = skip_space (dropWhile (\<lambda>c. c \<noteq> NUL \<and> c \<noteq> CHR 0x0A) cur) l"
  from semi obtain r where cur: "cur = CHR '';'' # r"
    by (cases cur) (auto simp: peek_def)
  have len: "length (fst (skip_space cs k)) \<le> length cs" for cs k
    by (induction cs arbitrary: k) (auto simp: le_SucI)
  have "length x \<le> length (dropWhile (\<lambda>c. c \<noteq> NUL \<and> c \<noteq> CHR 0x0A) cur)"
    using len [of "dropWhile (\<lambda>c. c \<noteq> NUL \<and> c \<noteq> CHR 0x0A) cur" l] sk [symmetric]
    by simp
  also have "\<dots> \<le> length r"
    by (simp add: cur length_dropWhile_le)
  finally show "((x, y), cur, l) \<in> measure (\<lambda>(cur, l). length cur)"
    by (simp add: cur)
qed

declare skip_comments.simps [simp del]

text \<open>The macro \<^verbatim>\<open>CLEAN()\<close>.\<close>

definition CLEAN :: "pstate \<Rightarrow> pstate" where
  "CLEAN st =
     (case skip_space (cursor st) (line st) of
        (cur, l) \<Rightarrow> (case skip_comments cur l of (cur', l') \<Rightarrow> \<lparr>cursor = cur', line = l'\<rparr>))"

subsection \<open>String literals\<close>

text \<open>
  The scan for the closing quote counts the bytes up to the first \<^verbatim>\<open>"\<close> that does not
  follow a backslash byte. The first argument is the byte before the current one
  (\<open>None\<close> at \<^verbatim>\<open>i == 0\<close>).
\<close>

fun scan_string :: "char option \<Rightarrow> string \<Rightarrow> nat" where
  "scan_string prev [] = 0"
| "scan_string prev (c # cs) =
     (if c \<noteq> NUL \<and> (c \<noteq> CHR 0x22 \<or> prev = Some (CHR 0x5C))
      then Suc (scan_string (Some c) cs) else 0)"

text \<open>
  The copying loop over the bytes \<^verbatim>\<open>cursor[0..i)\<close>. A backslash byte is never written
  by itself; a byte after a backslash byte goes through the \<^verbatim>\<open>switch\<close>. The backslash case
  of the switch stands under \<^verbatim>\<open>cursor[j] != '\\'\<close>, as in the source.
\<close>

definition escape_switch :: "char \<Rightarrow> string" where
  "escape_switch c =
     (if c = CHR ''n'' then [CHR 0x0A]
      else if c = CHR ''r'' then [CHR 0x0D]
      else if c = CHR ''t'' then [CHR 0x09]
      else if c = CHR ''0'' then [NUL]
      else if c = CHR 0x22 then [CHR 0x22]
      else if c = CHR 0x5C then [CHR 0x5C]
      else [CHR 0x5C, c])"

fun materialise :: "char option \<Rightarrow> string \<Rightarrow> string" where
  "materialise prev [] = []"
| "materialise prev (c # cs) =
     (if c \<noteq> CHR 0x5C
      then (if prev = Some (CHR 0x5C) then escape_switch c else [c])
      else []) @ materialise (Some c) cs"

subsection \<open>parse_node\<close>

text \<open>
  The recursive descent. The first argument bounds the depth of the recursion through
  lists and the number of turns of the loop over a list's children; atoms need none.
\<close>

fun parse_node :: "nat \<Rightarrow> pstate \<Rightarrow> (Node \<times> pstate) outcome"
  and parse_list :: "nat \<Rightarrow> Node list \<Rightarrow> pstate \<Rightarrow> (Node list \<times> pstate) outcome"
where
  "parse_node n st0 =
     (let st = CLEAN st0; cur = cursor st in
      if peek cur = NUL then Return (INVALID, st)
      else if isdigit_c (peek cur) \<or> (peek cur = CHR ''-'' \<and> isdigit_c (peek (tl cur))) then
        (case strtoll cur of
           (i, used) \<Rightarrow>
             if used = 0 then Exit (E_bad_integer (line st))
             else Return (INT_ATOM i, st\<lparr>cursor := drop used cur\<rparr>))
      else if peek cur = CHR ''['' then
        (case n of
           0 \<Rightarrow> OutOfFuel
         | Suc m \<Rightarrow>
            (case parse_list m [] (CLEAN (st\<lparr>cursor := tl cur\<rparr>)) of
               Return (kids, st1) \<Rightarrow>
                 (let st2 = CLEAN st1 in
                  if peek (cursor st2) \<noteq> CHR '']''
                  then Exit (E_expected_closing_bracket (line st2))
                  else Return (LIST kids, st2\<lparr>cursor := tl (cursor st2)\<rparr>))
             | Exit e \<Rightarrow> Exit e
             | Undefined \<Rightarrow> Undefined
             | OutOfFuel \<Rightarrow> OutOfFuel))
      else if peek cur = CHR 0x22 then
        (let body = tl cur;
             i = scan_string None body;
             rest = drop i body
         in if peek rest \<noteq> CHR 0x22 then Exit (E_expected_closing_quote (line st))
            else Return (STRING_ATOM (materialise None (take i body)), st\<lparr>cursor := tl rest\<rparr>))
      else if peek cur \<noteq> CHR '']'' then
        (let i = length (takeWhile (\<lambda>c. c \<noteq> NUL \<and> \<not> isspace_c c \<and> c \<noteq> CHR '']'') cur)
         in Return (NAME_ATOM (take i cur), st\<lparr>cursor := drop i cur\<rparr>))
      else Exit (E_unexpected_character (line st) (peek cur)))"
| "parse_list n acc st =
     (if peek (cursor st) \<noteq> CHR '']'' then
        (case n of
           0 \<Rightarrow> OutOfFuel
         | Suc m \<Rightarrow>
            (case parse_node m st of
               Return (child, st1) \<Rightarrow>
                 if kind_of child \<noteq> K_INVALID then parse_list m (acc @ [child]) (CLEAN st1)
                 else Return (acc, st1)
             | Exit e \<Rightarrow> Exit e
             | Undefined \<Rightarrow> Undefined
             | OutOfFuel \<Rightarrow> OutOfFuel))
      else Return (acc, st))"

declare parse_node.simps [simp del] parse_list.simps [simp del]

text \<open>The loop of \<^verbatim>\<open>main\<close> that fills the program node.\<close>

fun parse_program :: "nat \<Rightarrow> Node list \<Rightarrow> pstate \<Rightarrow> (Node \<times> pstate) outcome" where
  "parse_program 0 acc st = OutOfFuel"
| "parse_program (Suc n) acc st =
     (case parse_node n st of
        Return (node, st1) \<Rightarrow>
          if kind_of node \<noteq> K_INVALID then parse_program n (acc @ [node]) st1
          else Return (PROGRAM acc, st1)
      | Exit e \<Rightarrow> Exit e
      | Undefined \<Rightarrow> Undefined
      | OutOfFuel \<Rightarrow> OutOfFuel)"

section \<open>The interpreter\<close>

subsection \<open>Arrays and the C library\<close>

text \<open>
  Modelled from the spec: \<^verbatim>\<open>array.c\<close> (\<^verbatim>\<open>array_t\<close>, \<^verbatim>\<open>array_len\<close>, \<^verbatim>\<open>array_item\<close>,
  \<^verbatim>\<open>array_push\<close>, \<^verbatim>\<open>array_pop\<close>, \<^verbatim>\<open>array_last\<close>, the traversals) is not among the sources.
  The spec asks for a growable ordered sequence, here a list: \<^verbatim>\<open>array_push\<close> appends,
  \<^verbatim>\<open>array_pop\<close> is \<open>butlast\<close>, \<^verbatim>\<open>array_last\<close> is \<open>last\<close>. \<^verbatim>\<open>array_len\<close> is the number of elements
  as a signed integer, and \<^verbatim>\<open>array_item\<close> outside the array is an out-of-bounds read.
\<close>

definition array_len :: "'a list \<Rightarrow> int" where
  "array_len xs = int (length xs)"

text \<open>
  Modelled from the spec: \<^verbatim>\<open>array_item\<close> of the missing \<^verbatim>\<open>array.c\<close>; \<open>None\<close> is the read
  outside the array.
\<close>

definition array_item :: "'a list \<Rightarrow> int \<Rightarrow> 'a option" where
  "array_item xs i = (if 0 \<le> i \<and> i < int (length xs) then Some (xs ! nat i) else None)"

text \<open>What \<^verbatim>\<open>asprintf\<close> is given after the format: the payload of a node, or a C string.\<close>

datatype fmt_arg = A_payload Node | A_str string

text \<open>
  The C library functions the interpreter calls and the sources do not define:
  \<^verbatim>\<open>asprintf\<close>, as the bytes it stores in \<^verbatim>\<open>str\<close> for a format and its arguments, and
  \<^verbatim>\<open>rand\<close>, as the sequence of values its calls return. \<^verbatim>\<open>asprintf\<close> gives no result when it
  fails or when the arguments do not fit the conversions of the format; \<^verbatim>\<open>do_fmt\<close> does not
  test what it returns and reads \<^verbatim>\<open>str\<close> all the same.
\<close>

record libc =
  asprintf :: "string \<Rightarrow> fmt_arg list \<Rightarrow> string option"
  rand :: "nat \<Rightarrow> 64 word"

text \<open>
  The interpreter's globals: the symbol table \<^verbatim>\<open>functions\<close> (a hash table keyed by the
  function's name), the argument stack \<^verbatim>\<open>args\<close>, the bytes written to standard output and
  the number of calls of \<^verbatim>\<open>rand\<close> so far.
\<close>

record state =
  functions_table :: "string \<rightharpoonup> Node list"
  args :: "Node list list"
  stdout :: string
  rand_calls :: nat

type_synonym result = "(Node \<times> state) outcome"
type_synonym interp = "Node \<Rightarrow> state \<Rightarrow> result"

fun bind :: "'a outcome \<Rightarrow> ('a \<Rightarrow> 'b outcome) \<Rightarrow> 'b outcome" where
  "bind (Return x) f = f x"
| "bind (Exit e) f = Exit e"
| "bind Undefined f = Undefined"
| "bind OutOfFuel f = OutOfFuel"

subsection \<open>check\<close>

text \<open>The expected kinds are the varargs of \<^verbatim>\<open>check\<close>; \<open>None\<close> is the \<^verbatim>\<open>-1\<close> of any kind.\<close>

fun check_kinds :: "string \<Rightarrow> int \<Rightarrow> Node list \<Rightarrow> kind option list \<Rightarrow> error option" where
  "check_kinds f i (arg # as) (expected # ks) =
     (if expected \<noteq> None \<and> Some (kind_of arg) \<noteq> expected then Some (E_incorrect_type f i)
      else check_kinds f (i + 1) as ks)"
| "check_kinds f i _ _ = None"

definition check :: "Node list \<Rightarrow> kind option list \<Rightarrow> error option" where
  "check evaluated_nodes kinds =
     (let n_args = array_len evaluated_nodes - 1;
          arity = int (length kinds);
          f = c_str (name (evaluated_nodes ! 0))
      in if n_args \<noteq> arity then Some (E_arity f arity n_args)
         else check_kinds f 1 (tl evaluated_nodes) kinds)"

subsection \<open>Special forms\<close>

definition interpret_if :: "interp \<Rightarrow> Node list \<Rightarrow> state \<Rightarrow> result" where
  "interpret_if interp cs st =
     (if array_len cs < 3 then Exit E_if_expects
      else bind (interp (cs ! 1) st) (\<lambda>(cond, st1).
        if kind_of cond \<noteq> K_INT_ATOM then Exit E_if_condition
        else if integer cond \<noteq> 0 then interp (cs ! 2) st1
        else if array_len cs \<ge> 4 then interp (cs ! 3) st1
        else Return (INT_ATOM 0, st1)))"

text \<open>
  \<^verbatim>\<open>interpret_define\<close> reads \<^verbatim>\<open>name.name\<close> of the copied second child without looking at its
  kind. For a name or a string that is the node's bytes (the two pointers share the union);
  for an integer or a list it is not a pointer to a string.
\<close>

definition key_of :: "Node \<Rightarrow> string option" where
  "key_of node =
     (case node of
        NAME_ATOM s \<Rightarrow> Some (c_str s)
      | STRING_ATOM s \<Rightarrow> Some (c_str s)
      | _ \<Rightarrow> None)"

definition interpret_define :: "Node list \<Rightarrow> state \<Rightarrow> result" where
  "interpret_define cs st =
     (if array_len cs < 3 then Exit E_define_expects
      else case copy_node (cs ! 1) of
        None \<Rightarrow> Undefined
      | Some nm \<Rightarrow>
         (case key_of nm of
            None \<Rightarrow> Undefined
          | Some key \<Rightarrow>
             (case copy_nodes (drop 2 cs) of
                None \<Rightarrow> Undefined
              | Some expressions \<Rightarrow>
                 (let fns = functions_table st;
                      fns1 = (if fns key \<noteq> None then fns(key := None) else fns);
                      fns2 = fns1(key \<mapsto> expressions)
                  in Return (nm, st\<lparr>functions_table := fns2\<rparr>)))))"

subsection \<open>The format engine\<close>

text \<open>
  The loop of \<^verbatim>\<open>do_fmt\<close> over the format, with its locals \<^verbatim>\<open>last\<close>, \<^verbatim>\<open>node_idx\<close> and
  \<^verbatim>\<open>chars\<close>. The directive is collected in \<^verbatim>\<open>char buff[64]\<close> after a \<^verbatim>\<open>%\<close>: a body of more
  than 62 bytes, or of more than 61 when an \<^verbatim>\<open>s\<close> is appended, is written past its end.
\<close>

function do_fmt_loop ::
  "libc \<Rightarrow> Node list \<Rightarrow> string \<Rightarrow> char \<Rightarrow> nat \<Rightarrow> string \<Rightarrow> string outcome"
where
  "do_fmt_loop L nodes fmt lastc node_idx chars =
     (case fmt of
        [] \<Rightarrow> Return chars
      | c # rest \<Rightarrow>
          if c = CHR ''{'' then
            if lastc = CHR 0x5C then do_fmt_loop L nodes rest c node_idx (butlast chars @ [c])
            else
              (let body = takeWhile (\<lambda>c. c \<noteq> CHR ''}'') rest;
                   after = dropWhile (\<lambda>c. c \<noteq> CHR ''}'') rest;
                   var_width = (if CHR ''*'' \<in> set body then 1 else 0)
               in if length body > 62 then Undefined
                  else if after = [] then Return chars
                  else if array_len nodes \<le> int (node_idx + var_width)
                    then Exit E_format_missing_argument
                  else if \<not> isalpha_c (last (CHR ''%'' # body)) then
                    (if length body > 61 then Undefined
                     else
                       (let buff = CHR ''%'' # body @ ''s'';
                            node_str = node_to_string (nodes ! (node_idx + var_width))
                        in case (if var_width = 1
                                 then asprintf L buff [A_payload (nodes ! node_idx), A_str node_str]
                                 else asprintf L buff [A_str node_str]) of
                             None \<Rightarrow> Undefined
                           | Some str \<Rightarrow>
                               do_fmt_loop L nodes (tl after) (CHR ''}'')
                                 (node_idx + var_width + 1) (chars @ c_str str)))
                  else
                    (let buff = CHR ''%'' # body
                     in case (if var_width = 1
                              then asprintf L buff [A_payload (nodes ! node_idx),
                                                    A_payload (nodes ! (node_idx + 1))]
                              else asprintf L buff [A_payload (nodes ! node_idx)]) of
                          None \<Rightarrow> Undefined
                        | Some str \<Rightarrow>
                            do_fmt_loop L nodes (tl after) (CHR ''}'')
                              (node_idx + var_width + 1) (chars @ c_str str)))
          else do_fmt_loop L nodes rest c node_idx (chars @ [c]))"
  by pat_completeness auto
termination
proof -
  have drop_less: "length (dropWhile P xs) - Suc 0 < Suc (length xs)" for P and xs :: string
    using length_dropWhile_le [of P xs] by simp
  show ?thesis
    by (relation "measure (\<lambda>(L, nodes, fmt, lastc, node_idx, chars). length fmt)")
       (auto simp: drop_less)
qed

declare do_fmt_loop.simps [simp del]

definition do_fmt :: "libc \<Rightarrow> Node list \<Rightarrow> string outcome" where
  "do_fmt L nodes = do_fmt_loop L nodes (c_str (string (nodes ! 1))) NUL 2 []"

subsection \<open>apply\<close>

text \<open>The loop of \<^verbatim>\<open>apply\<close> that evaluates the children after the first, left to right.\<close>

fun eval_args :: "interp \<Rightarrow> Node list \<Rightarrow> state \<Rightarrow> (Node list \<times> state) outcome" where
  "eval_args interp [] st = Return ([], st)"
| "eval_args interp (c # cs) st =
     bind (interp c st) (\<lambda>(r, st1).
       bind (eval_args interp cs st1) (\<lambda>(rs, st2). Return (r # rs, st2)))"

text \<open>
  The loop over the copied body of a user function: \<^verbatim>\<open>result\<close> starts as \<^verbatim>\<open>INVALID\<close> and
  holds the value of the last expression evaluated.
\<close>

fun run_body :: "interp \<Rightarrow> Node list \<Rightarrow> Node \<Rightarrow> state \<Rightarrow> result" where
  "run_body interp [] result st = Return (result, st)"
| "run_body interp (e # es) result st =
     bind (interp e st) (\<lambda>(r, st1). run_body interp es r st1)"

definition INT_KINDS :: "kind option list" where
  "INT_KINDS = [Some K_INT_ATOM, Some K_INT_ATOM]"

text \<open>
  The arithmetic and comparison functions: \<^verbatim>\<open>check(&evaluated_nodes, 2, INT_ATOM, INT_ATOM)\<close>,
  then the operation on the two \<^verbatim>\<open>integer\<close> payloads.
\<close>

definition int_args :: "Node list \<Rightarrow> (64 word \<Rightarrow> 64 word \<Rightarrow> result) \<Rightarrow> result" where
  "int_args evaluated_nodes f =
     (case check evaluated_nodes INT_KINDS of
        Some e \<Rightarrow> Exit e
      | None \<Rightarrow> f (integer (evaluated_nodes ! 1)) (integer (evaluated_nodes ! 2)))"

definition make_bool :: "bool \<Rightarrow> Node" where
  "make_bool b = INT_ATOM (if b then 1 else 0)"

text \<open>
  \<^verbatim>\<open>/\<close> and \<^verbatim>\<open>%\<close> on \<^verbatim>\<open>long long\<close> truncate towards zero; a zero divisor and the quotient
  of \<^verbatim>\<open>LLONG_MIN\<close> by \<^verbatim>\<open>-1\<close> are undefined in C.
\<close>

definition c_div :: "64 word \<Rightarrow> 64 word \<Rightarrow> 64 word option" where
  "c_div a b = (if b = 0 \<or> (sint a = LLONG_MIN \<and> sint b = - 1) then None
                else Some (of_int (sint a sdiv sint b)))"

definition c_mod :: "64 word \<Rightarrow> 64 word \<Rightarrow> 64 word option" where
  "c_mod a b = (if b = 0 \<or> (sint a = LLONG_MIN \<and> sint b = - 1) then None
                else Some (of_int (sint a smod sint b)))"

text \<open>
  The dispatch of \<^verbatim>\<open>apply\<close> on the name once every child is evaluated:
  \<open>evaluated_nodes\<close> holds the name node and the values of the arguments.
\<close>

definition apply_function ::
  "libc \<Rightarrow> interp \<Rightarrow> string \<Rightarrow> Node list \<Rightarrow> state \<Rightarrow> result"
where
  "apply_function L interp nm evaluated_nodes st =
     (if nm = ''+'' then int_args evaluated_nodes (\<lambda>a b. Return (INT_ATOM (a + b), st))
      else if nm = ''-'' then int_args evaluated_nodes (\<lambda>a b. Return (INT_ATOM (a - b), st))
      else if nm = ''*'' then int_args evaluated_nodes (\<lambda>a b. Return (INT_ATOM (a * b), st))
      else if nm = ''/'' then
        int_args evaluated_nodes
          (\<lambda>a b. case c_div a b of None \<Rightarrow> Undefined | Some q \<Rightarrow> Return (INT_ATOM q, st))
      else if nm = ''%'' then
        int_args evaluated_nodes
          (\<lambda>a b. case c_mod a b of None \<Rightarrow> Undefined | Some r \<Rightarrow> Return (INT_ATOM r, st))
      else if nm = ''=='' then int_args evaluated_nodes (\<lambda>a b. Return (make_bool (a = b), st))
      else if nm = ''!='' then int_args evaluated_nodes (\<lambda>a b. Return (make_bool (a \<noteq> b), st))
      else if nm = ''<'' then
        int_args evaluated_nodes (\<lambda>a b. Return (make_bool (sint a < sint b), st))
      else if nm = ''<='' then
        int_args evaluated_nodes (\<lambda>a b. Return (make_bool (sint a \<le> sint b), st))
      else if nm = ''>'' then
        int_args evaluated_nodes (\<lambda>a b. Return (make_bool (sint a > sint b), st))
      else if nm = ''>='' then
        int_args evaluated_nodes (\<lambda>a b. Return (make_bool (sint a \<ge> sint b), st))
      else if nm = ''list'' then
        (case copy_nodes (tl evaluated_nodes) of
           None \<Rightarrow> Undefined
         | Some elems \<Rightarrow> Return (LIST elems, st))
      else if nm = ''len'' then
        (case check evaluated_nodes [Some K_LIST] of
           Some e \<Rightarrow> Exit e
         | None \<Rightarrow> Return (INT_ATOM (of_int (array_len (children (evaluated_nodes ! 1)))), st))
      else if nm = ''append'' then
        (case check evaluated_nodes [Some K_LIST, Some K_LIST] of
           Some e \<Rightarrow> Exit e
         | None \<Rightarrow>
            (case copy_nodes (children (evaluated_nodes ! 1)) of
               None \<Rightarrow> Undefined
             | Some xs \<Rightarrow>
                (case copy_nodes (children (evaluated_nodes ! 2)) of
                   None \<Rightarrow> Undefined
                 | Some ys \<Rightarrow> Return (LIST (xs @ ys), st))))
      else if nm = ''car'' then
        (case check evaluated_nodes [Some K_LIST] of
           Some e \<Rightarrow> Exit e
         | None \<Rightarrow>
            (let it = evaluated_nodes ! 1 in
             if array_len (children it) < 1 then Exit E_car_empty
             else case copy_node (children it ! 0) of
                    None \<Rightarrow> Undefined
                  | Some r \<Rightarrow> Return (r, st)))
      else if nm = ''cdr'' then
        (case check evaluated_nodes [Some K_LIST] of
           Some e \<Rightarrow> Exit e
         | None \<Rightarrow>
            (case copy_nodes (tl (children (evaluated_nodes ! 1))) of
               None \<Rightarrow> Undefined
             | Some elems \<Rightarrow> Return (LIST elems, st)))
      else if nm = ''rand'' then
        Return (INT_ATOM (rand L (rand_calls st)), st\<lparr>rand_calls := Suc (rand_calls st)\<rparr>)
      else if nm = ''print'' then
        (case check evaluated_nodes [None] of
           Some e \<Rightarrow> Exit e
         | None \<Rightarrow>
            (let str = node_to_string (evaluated_nodes ! 1);
                 st1 = st\<lparr>stdout := stdout st @ c_str str @ [CHR 0x0A]\<rparr>
             in case copy_node (evaluated_nodes ! 1) of
                  None \<Rightarrow> Undefined
                | Some r \<Rightarrow> Return (r, st1)))
      else if nm = ''fmt'' then
        (if array_len evaluated_nodes < 2 then Exit E_fmt_expects
         else if kind_of (evaluated_nodes ! 1) \<noteq> K_STRING_ATOM then Exit E_fmt_first
         else bind (do_fmt L evaluated_nodes) (\<lambda>s. Return (STRING_ATOM s, st)))
      else if nm = ''pfmt'' then
        (if array_len evaluated_nodes < 2 then Exit E_pfmt_expects
         else if kind_of (evaluated_nodes ! 1) \<noteq> K_STRING_ATOM then Exit E_pfmt_first
         else bind (do_fmt L evaluated_nodes) (\<lambda>s.
                Return (STRING_ATOM s, st\<lparr>stdout := stdout st @ c_str s\<rparr>)))
      else
        (case functions_table st nm of
           Some lookup \<Rightarrow>
             (case copy_nodes evaluated_nodes of
                None \<Rightarrow> Undefined
              | Some apply_args \<Rightarrow>
                 (let st1 = st\<lparr>args := args st @ [apply_args]\<rparr> in
                  case copy_nodes lookup of
                    None \<Rightarrow> Undefined
                  | Some fn_exprs \<Rightarrow>
                     bind (run_body interp fn_exprs INVALID st1) (\<lambda>(result, st2).
                       Return (result, st2\<lparr>args := butlast (args st2)\<rparr>))))
         | None \<Rightarrow> Exit (E_unknown_function nm)))"

text \<open>\<^verbatim>\<open>apply\<close>, on the children of the list node it is given.\<close>

definition apply_node :: "libc \<Rightarrow> interp \<Rightarrow> Node list \<Rightarrow> state \<Rightarrow> result" where
  "apply_node L interp cs st =
     (if array_len cs < 1 then Exit E_no_function
      else bind (interp (cs ! 0) st) (\<lambda>(first, st1).
        if kind_of first \<noteq> K_NAME_ATOM then Exit E_expected_function_name
        else
          (let nm = c_str (name first) in
           if nm = ''if'' then interpret_if interp cs st1
           else if nm = ''define'' then interpret_define cs st1
           else bind (eval_args interp (tl cs) st1) (\<lambda>(results, st2).
                  apply_function L interp nm (first # results) st2))))"

subsection \<open>interpret\<close>

text \<open>
  A name that starts with \<^verbatim>\<open>:\<close> is looked up in the frame on top of the argument stack.
  The index is a \<^verbatim>\<open>long long\<close> and the length of the frame is compared with it as a
  signed number, so a negative index passes the test and is read outside the frame.
\<close>

definition argument_reference :: "string \<Rightarrow> state \<Rightarrow> result" where
  "argument_reference nm st =
     (if array_len (args st) = 0 then Exit E_argument_reference_outside
      else
        (let apply_args = last (args st) in
         case strtoll (tl (c_str nm)) of
           (idx, used) \<Rightarrow>
             if used = 0 then Exit (E_argument_index_unparsable (c_str nm))
             else if array_len apply_args \<le> sint idx
               then Exit (E_argument_reference_invalid (sint idx))
             else case array_item apply_args (sint idx) of
                    None \<Rightarrow> Undefined
                  | Some arg \<Rightarrow>
                     (case copy_node arg of
                        None \<Rightarrow> Undefined
                      | Some val \<Rightarrow> Return (val, st))))"

text \<open>
  The loop of the \<^verbatim>\<open>PROGRAM\<close> case assigns each child's value to \<^verbatim>\<open>val\<close> and frees it;
  \<^verbatim>\<open>val\<close> is what \<^verbatim>\<open>interpret\<close> returns after the loop.
\<close>

fun interpret_program :: "interp \<Rightarrow> Node list \<Rightarrow> Node \<Rightarrow> state \<Rightarrow> result" where
  "interpret_program interp [] val st = Return (val, st)"
| "interpret_program interp (c # cs) val st =
     bind (interp c st) (\<lambda>(v, st1). interpret_program interp cs v st1)"

definition copied :: "Node \<Rightarrow> state \<Rightarrow> result" where
  "copied node st = (case copy_node node of None \<Rightarrow> Undefined | Some val \<Rightarrow> Return (val, st))"

text \<open>
  \<^verbatim>\<open>interpret\<close>; the number bounds the depth of the host's call stack.
\<close>

fun interpret_node :: "libc \<Rightarrow> nat \<Rightarrow> Node \<Rightarrow> state \<Rightarrow> result" where
  "interpret_node L 0 node st = OutOfFuel"
| "interpret_node L (Suc n) node st =
     (case node of
        INVALID \<Rightarrow> Exit E_bad_node
      | PROGRAM cs \<Rightarrow> interpret_program (interpret_node L n) cs INVALID st
      | LIST cs \<Rightarrow> apply_node L (interpret_node L n) cs st
      | INT_ATOM i \<Rightarrow> copied node st
      | STRING_ATOM s \<Rightarrow> copied node st
      | NAME_ATOM s \<Rightarrow>
          if peek s = CHR '':'' then argument_reference s st else copied node st)"

text \<open>The state \<^verbatim>\<open>main\<close> sets up before it interprets the program.\<close>

definition initial_state :: state where
  "initial_state = \<lparr>functions_table = Map.empty, args = [], stdout = [], rand_calls = 0\<rparr>"

text \<open>
  The conversion \<^verbatim>\<open>s\<close> of \<^verbatim>\<open>asprintf\<close>, as the C standard defines it: a \<^verbatim>\<open>%\<close>, any number
  of \<^verbatim>\<open>-\<close> flags, an optional decimal width, \<^verbatim>\<open>s\<close>, and one string argument, whose bytes
  are padded with spaces up to the width, on the right when there is a \<^verbatim>\<open>-\<close> flag and on
  the left otherwise. Any other call has no result here.
\<close>

definition pad_s :: "bool \<Rightarrow> nat \<Rightarrow> string \<Rightarrow> string" where
  "pad_s left width s =
     (if left then s @ replicate (width - length s) (CHR '' '')
      else replicate (width - length s) (CHR '' '') @ s)"

definition asprintf_s :: "string \<Rightarrow> fmt_arg list \<Rightarrow> string option" where
  "asprintf_s fmt as =
     (case fmt of
        [] \<Rightarrow> None
      | c # spec \<Rightarrow>
          (let flags = takeWhile (\<lambda>c. c = CHR ''-'') spec;
               width = takeWhile isdigit_c (dropWhile (\<lambda>c. c = CHR ''-'') spec);
               conv = dropWhile isdigit_c (dropWhile (\<lambda>c. c = CHR ''-'') spec)
           in if c = CHR ''%'' \<and> conv = ''s'' \<and> peek width \<noteq> CHR ''0''
                 \<and> int (digits_value 0 width) < 2 ^ 31
              then (case as of
                      [A_str s] \<Rightarrow> Some (pad_s (flags \<noteq> []) (digits_value 0 width) (c_str s))
                    | _ \<Rightarrow> None)
              else None))"

text \<open>
  The C library of the concrete evaluations below: its \<^verbatim>\<open>asprintf\<close> has a result for the
  conversion \<^verbatim>\<open>s\<close> and fails on every other call, and its \<^verbatim>\<open>rand\<close> returns 0. Then two
  states inside a call.
\<close>

definition libc0 :: libc where
  "libc0 = \<lparr>asprintf = asprintf_s, rand = (\<lambda>k. 0)\<rparr>"

definition st_if :: state where
  "st_if = initial_state\<lparr>args := [[NAME_ATOM ''f'', NAME_ATOM ''if'']]\<rparr>"

definition st_list :: state where
  "st_list = initial_state\<lparr>args := [[NAME_ATOM ''f'', NAME_ATOM ''list'']]\<rparr>"

text \<open>
  A value: a node that \<^verbatim>\<open>copy_node\<close> reproduces as it is (no Invalid or Program node inside,
  no NUL inside a string or a name).
\<close>

definition is_value :: "Node \<Rightarrow> bool" where
  "is_value v = (copy_node v = Some v)"

text \<open>An evaluator whose results are values, or Invalid where no node was produced.\<close>

definition yields_values :: "interp \<Rightarrow> bool" where
  "yields_values interp = (\<forall>e st v st'. interp e st = Return (v, st') \<longrightarrow> v = INVALID \<or> is_value v)"

text \<open>The names \<^verbatim>\<open>apply\<close> compares with before it looks a name up in the symbol table.\<close>

definition builtin_names :: "string list" where
  "builtin_names = [''+'', ''-'', ''*'', ''/'', ''%'', ''=='', ''!='', ''<'', ''<='', ''>'', ''>='',
     ''list'', ''len'', ''append'', ''car'', ''cdr'', ''rand'', ''print'', ''fmt'', ''pfmt'']"



text \<open>
  An evaluator that agrees with another wherever the other does not run out of depth.
\<close>

definition extends :: "interp \<Rightarrow> interp \<Rightarrow> bool" where
  "extends f g = (\<forall>e st. f e st \<noteq> OutOfFuel \<longrightarrow> g e st = f e st)"

text \<open>Bytes that a string literal holds as they are: no quote, no backslash, no NUL.\<close>

definition plain :: "string \<Rightarrow> bool" where
  "plain s = (\<forall>c \<in> set s. c \<noteq> CHR 0x22 \<and> c \<noteq> CHR 0x5C \<and> c \<noteq> NUL)"

section \<open>Properties\<close>

subsection \<open>interpret, case by case\<close>

lemma interpret_LIST:
  "interpret_node L (Suc n) (LIST cs) st = apply_node L (interpret_node L n) cs st"
  by simp

lemma interpret_PROGRAM:
  "interpret_node L (Suc n) (PROGRAM cs) st =
     interpret_program (interpret_node L n) cs INVALID st"
  by simp

lemma interpret_INT: "interpret_node L (Suc n) (INT_ATOM i) st = Return (INT_ATOM i, st)"
  by (simp add: copied_def)

lemma interpret_STRING:
  "interpret_node L (Suc n) (STRING_ATOM s) st = Return (STRING_ATOM (c_str s), st)"
  by (simp add: copied_def)

lemma interpret_NAME:
  "interpret_node L (Suc n) (NAME_ATOM s) st =
     (if peek s = CHR '':'' then argument_reference s st else Return (NAME_ATOM (c_str s), st))"
  by (simp add: copied_def)

lemma interpret_INVALID: "interpret_node L (Suc n) INVALID st = Exit E_bad_node"
  by simp

lemmas interpret_simps =
  interpret_LIST interpret_PROGRAM interpret_INT interpret_STRING interpret_NAME interpret_INVALID

declare interpret_node.simps(2) [simp del]

lemma strtoll_1: "strtoll ''1'' = (1, 1)"
  by (simp add: strtoll_def isspace_c_def isdigit_c_def digit_val_def LLONG_MAX_def LLONG_MIN_def)

lemma strtoll_minus_1: "strtoll ''-1'' = (- 1, 2)"
  by (simp add: strtoll_def isspace_c_def isdigit_c_def digit_val_def LLONG_MAX_def LLONG_MIN_def)

subsection \<open>Special forms and the head of an application\<close>

text \<open>
  C1, as stated: whether an application is a special form depends only on the literal first
  child of the List, not on what that child evaluates to. It does not hold: \<^verbatim>\<open>apply\<close>
  evaluates the first child and compares the name it yields. The List
  \<^verbatim>\<open>[:1 0 [unknown] 42]\<close> is the special form \<^verbatim>\<open>if\<close> in a call whose first argument is the
  name \<^verbatim>\<open>if\<close> (the unknown function is never applied), and an ordinary application, which
  evaluates every argument, in a call whose first argument is the name \<^verbatim>\<open>list\<close>.
\<close>

theorem special_form_literal_head_counterexample:
  "interpret_node libc0 (Suc (Suc (Suc 0)))
     (LIST [NAME_ATOM '':1'', INT_ATOM 0, LIST [NAME_ATOM ''unknown''], INT_ATOM 42]) st_if
     = Return (INT_ATOM 42, st_if)
   \<and> interpret_node libc0 (Suc (Suc (Suc 0)))
     (LIST [NAME_ATOM '':1'', INT_ATOM 0, LIST [NAME_ATOM ''unknown''], INT_ATOM 42]) st_list
     = Exit (E_unknown_function ''unknown'')"
  by (simp add: interpret_simps apply_node_def array_len_def peek_def argument_reference_def
        st_if_def st_list_def c_str_def strtoll_1 array_item_def interpret_if_def
        apply_function_def initial_state_def)

text \<open>
  C1, amended: for every List node being applied, the first child is evaluated first and
  must yield a Name, otherwise the error "expected function name" is fatal; the special
  forms \<^verbatim>\<open>if\<close> and \<^verbatim>\<open>define\<close> are dispatched on the string of that Name before any other
  child is evaluated, and receive the unevaluated List; any other name has the remaining
  children evaluated left to right and is then applied.
\<close>

theorem special_form_dispatch_on_evaluated_head:
  "interpret_node L (Suc n) (LIST (h # rest)) st =
     bind (interpret_node L n h st) (\<lambda>(first, st1).
       if kind_of first \<noteq> K_NAME_ATOM then Exit E_expected_function_name
       else if c_str (name first) = ''if'' then interpret_if (interpret_node L n) (h # rest) st1
       else if c_str (name first) = ''define'' then interpret_define (h # rest) st1
       else bind (eval_args (interpret_node L n) rest st1) (\<lambda>(results, st2).
              apply_function L (interpret_node L n) (c_str (name first)) (first # results) st2))"
  by (cases "interpret_node L n h st")
     (auto simp: interpret_LIST apply_node_def array_len_def Let_def)

theorem special_form_dispatch_on_evaluated_head_witness:
  "interpret_node libc0 (Suc (Suc 0))
        (LIST [NAME_ATOM '':1'', INT_ATOM 0, LIST [NAME_ATOM ''unknown''], INT_ATOM 42]) st_if
      = interpret_if (interpret_node libc0 (Suc 0))
          [NAME_ATOM '':1'', INT_ATOM 0, LIST [NAME_ATOM ''unknown''], INT_ATOM 42] st_if
   \<and> interpret_node libc0 (Suc (Suc 0))
        (LIST [INT_ATOM 5, INT_ATOM 0]) st_if = Exit E_expected_function_name"
proof -
  have h: "interpret_node libc0 (Suc 0) (NAME_ATOM '':1'') st_if = Return (NAME_ATOM ''if'', st_if)"
    by (simp add: interpret_NAME peek_def argument_reference_def st_if_def c_str_def strtoll_1
          array_item_def array_len_def)
  have first: "interpret_node libc0 (Suc (Suc 0))
        (LIST [NAME_ATOM '':1'', INT_ATOM 0, LIST [NAME_ATOM ''unknown''], INT_ATOM 42]) st_if
      = interpret_if (interpret_node libc0 (Suc 0))
          [NAME_ATOM '':1'', INT_ATOM 0, LIST [NAME_ATOM ''unknown''], INT_ATOM 42] st_if"
    using special_form_dispatch_on_evaluated_head [of libc0 "Suc 0" "NAME_ATOM '':1''"
        "[INT_ATOM 0, LIST [NAME_ATOM ''unknown''], INT_ATOM 42]" st_if]
    by (simp add: h c_str_def)
  have second: "interpret_node libc0 (Suc (Suc 0))
        (LIST [INT_ATOM 5, INT_ATOM 0]) st_if = Exit E_expected_function_name"
    using special_form_dispatch_on_evaluated_head [of libc0 "Suc 0" "INT_ATOM 5" "[INT_ATOM 0]" st_if]
    by (simp add: interpret_INT)
  show ?thesis using first second by simp
qed

text \<open>
  C7: for every \<^verbatim>\<open>[if COND TRUE-EXPR ELSE-EXPR?]\<close> with at least COND and TRUE-EXPR, COND is
  evaluated and must yield an Int, else the error is fatal; if it is non-zero the value is
  that of TRUE-EXPR, evaluated in the state COND left; if it is zero the value is that of
  ELSE-EXPR when there is one and Int 0 when there is none. The right-hand side evaluates
  the selected branch only.
\<close>

theorem if_evaluates_selected_branch_only:
  "interpret_node L (Suc (Suc n)) (LIST (NAME_ATOM ''if'' # cond # t # rest)) st =
     bind (interpret_node L (Suc n) cond st) (\<lambda>(c, st1).
       case c of
         INT_ATOM v \<Rightarrow>
           if v \<noteq> 0 then interpret_node L (Suc n) t st1
           else (case rest of
                   [] \<Rightarrow> Return (INT_ATOM 0, st1)
                 | e # _ \<Rightarrow> interpret_node L (Suc n) e st1)
       | _ \<Rightarrow> Exit E_if_condition)"
proof -
  have head: "interpret_node L (Suc n) (NAME_ATOM ''if'') st = Return (NAME_ATOM ''if'', st)"
    by (simp add: interpret_NAME peek_def c_str_def)
  show ?thesis
    by (cases "interpret_node L (Suc n) cond st")
       (auto simp: interpret_LIST apply_node_def interpret_if_def array_len_def head c_str_def
             split: Node.splits list.splits)
qed

theorem if_evaluates_selected_branch_only_witness:
  "interpret_node libc0 (Suc (Suc (Suc 0)))
     (LIST [NAME_ATOM ''if'', INT_ATOM 0, LIST [NAME_ATOM ''unknown-fn''], INT_ATOM 42])
     initial_state
   = Return (INT_ATOM 42, initial_state)"
  using if_evaluates_selected_branch_only [of libc0 "Suc 0" "INT_ATOM 0"
      "LIST [NAME_ATOM ''unknown-fn'']" "[INT_ATOM 42]" initial_state]
  by (simp add: interpret_INT)

text \<open>
  C10: evaluating an empty List is always the fatal error "no function to apply in empty
  list": \<^verbatim>\<open>apply\<close> tests the number of children before it evaluates anything, whatever the
  state and whatever evaluation would do. The source form \<^verbatim>\<open>[ ]\<close> parses to that List.
\<close>

theorem empty_application_is_fatal:
  "apply_node L interp [] st = Exit E_no_function
   \<and> interpret_node L (Suc n) (LIST []) st = Exit E_no_function
   \<and> parse_node (Suc m) \<lparr>cursor = ''[ ]'', line = l\<rparr>
       = Return (LIST [], \<lparr>cursor = [], line = l\<rparr>)"
  by (simp add: interpret_LIST apply_node_def array_len_def parse_node.simps parse_list.simps
        CLEAN_def skip_comments.simps peek_def isspace_c_def isdigit_c_def)

subsection \<open>String escapes\<close>

lemma materialise_escape:
  "c \<noteq> CHR 0x5C \<Longrightarrow> materialise None [CHR 0x5C, c] = escape_switch c"
  by simp

lemma materialise_two_backslashes: "materialise None [CHR 0x5C, CHR 0x5C] = []"
  by simp

text \<open>
  C2: escape materialisation maps \<^verbatim>\<open>\n\<close>, \<^verbatim>\<open>\r\<close>, \<^verbatim>\<open>\t\<close>, \<^verbatim>\<open>\0\<close> and \<^verbatim>\<open>\"\<close> to their bytes, two
  backslashes to one backslash, and keeps any other escape as its two bytes, so that the
  source bytes \<^verbatim>\<open>a\\n\<close> should give the three bytes \<^verbatim>\<open>a\<close>, backslash, \<^verbatim>\<open>n\<close>. The code gives
  the two bytes \<^verbatim>\<open>a\<close> and newline on that literal: a backslash byte is never copied, the
  backslash case of the switch cannot be reached, and the \<^verbatim>\<open>n\<close> sees a backslash before it.
\<close>

theorem double_backslash_literal_loses_backslash:
  "parse_node n
     \<lparr>cursor = [CHR 0x22, CHR ''a'', CHR 0x5C, CHR 0x5C, CHR ''n'', CHR 0x22], line = l\<rparr>
   = Return (STRING_ATOM [CHR ''a'', CHR 0x0A], \<lparr>cursor = [], line = l\<rparr>)"
  by (simp add: parse_node.simps CLEAN_def skip_comments.simps peek_def isspace_c_def
        isdigit_c_def escape_switch_def)

subsection \<open>Argument references\<close>

lemma argument_reference_empty_stack:
  "args st = [] \<Longrightarrow> argument_reference nm st = Exit E_argument_reference_outside"
  by (simp add: argument_reference_def array_len_def)

lemma argument_reference_nonnegative:
  assumes "args st \<noteq> []" and "strtoll (tl (c_str nm)) = (idx, used)" and "used \<noteq> 0"
    and "0 \<le> sint idx"
  shows "argument_reference nm st =
           (if int (length (last (args st))) \<le> sint idx
            then Exit (E_argument_reference_invalid (sint idx))
            else case copy_node (last (args st) ! nat (sint idx)) of
                   None \<Rightarrow> Undefined
                 | Some val \<Rightarrow> Return (val, st))"
  using assms by (simp add: argument_reference_def array_len_def array_item_def)

lemma argument_reference_negative:
  assumes "args st \<noteq> []" and "strtoll (tl (c_str nm)) = (idx, used)" and "used \<noteq> 0"
    and "sint idx < 0"
  shows "argument_reference nm st = Undefined"
  using assms by (simp add: argument_reference_def array_len_def array_item_def)

text \<open>
  C3: a positional argument reference evaluated with a top frame of size s signals an error
  exactly when its index is not a frame position, that is unless 0 \<le> index < s. The code
  signals no error for a negative index: in \<^verbatim>\<open>[define g :-1] [g 1]\<close> the reference \<^verbatim>\<open>:-1\<close>
  passes the test against the frame's length and element -1 of the frame is read.
\<close>

theorem negative_argument_index_reads_outside_frame:
  "interpret_node L (Suc n) (NAME_ATOM '':-1'')
     (initial_state\<lparr>args := [[NAME_ATOM ''g'', INT_ATOM 1]]\<rparr>) = Undefined
   \<and> interpret_node L (Suc (Suc (Suc (Suc n))))
       (PROGRAM [LIST [NAME_ATOM ''define'', NAME_ATOM ''g'', NAME_ATOM '':-1''],
                 LIST [NAME_ATOM ''g'', INT_ATOM 1]]) initial_state = Undefined"
  by (simp add: interpret_simps peek_def argument_reference_def array_len_def c_str_def
        strtoll_minus_1 array_item_def apply_node_def interpret_define_def copy_nodes_def
        key_of_def apply_function_def initial_state_def)

subsection \<open>Programs\<close>

lemma interpret_program_snoc:
  "interpret_program interp (cs @ [c]) v st =
     bind (interpret_program interp cs v st) (\<lambda>(u, st1). interp c st1)"
proof (induction cs arbitrary: v st)
  case Nil
  show ?case by (cases "interp c st") auto
next
  case (Cons a cs)
  show ?case by (cases "interp a st") (auto simp: Cons.IH)
qed

lemma interpret_empty_program:
  "interpret_node L (Suc n) (PROGRAM []) st = Return (INVALID, st)"
  by (simp add: interpret_PROGRAM)

text \<open>
  C4: for every Program node, \<^verbatim>\<open>interpret\<close> evaluates each child in order, frees each
  child's result and returns an Invalid node. The children are evaluated in order, but the
  loop keeps each result in \<^verbatim>\<open>val\<close>, the variable \<^verbatim>\<open>interpret\<close> returns: for the program \<^verbatim>\<open>5\<close>
  the node returned is the Int 5 that was just freed, not Invalid.
\<close>

theorem program_returns_last_child_value:
  "interpret_node L (Suc (Suc n)) (PROGRAM [INT_ATOM 5]) st = Return (INT_ATOM 5, st)"
  by (simp add: interpret_simps)

subsection \<open>Printing and parsing again\<close>

lemma isdigit_digit_char: "(d::nat) < 10 \<Longrightarrow> isdigit_c (char_of (48 + d))"
  by (simp add: isdigit_c_def)

lemma digit_val_digit_char: "(d::nat) < 10 \<Longrightarrow> digit_val (char_of (48 + d)) = d"
  by (simp add: digit_val_def)

lemma digits_of_nonempty: "digits_of n \<noteq> []"
  by (subst digits_of.simps) simp

lemma digits_of_isdigit: "c \<in> set (digits_of n) \<Longrightarrow> isdigit_c c"
proof (induction n arbitrary: c rule: digits_of.induct)
  case (1 n)
  show ?case
  proof (cases "n < 10")
    case True
    with "1.prems" show ?thesis
      by (subst (asm) digits_of.simps) (simp add: isdigit_digit_char)
  next
    case False
    with "1.prems" have "c \<in> set (digits_of (n div 10)) \<or> c = char_of (48 + n mod 10)"
      by (subst (asm) digits_of.simps) auto
    then show ?thesis
      using "1.IH" [OF False] isdigit_digit_char [of "n mod 10"] by auto
  qed
qed

lemma digits_value_append:
  "digits_value acc (xs @ ys) = digits_value (digits_value acc xs) ys"
  by (induction xs arbitrary: acc) auto

lemma digits_value_digits_of: "digits_value 0 (digits_of n) = n"
proof (induction n rule: digits_of.induct)
  case (1 n)
  show ?case
  proof (cases "n < 10")
    case True
    then show ?thesis
      by (subst digits_of.simps) (simp add: digit_val_digit_char)
  next
    case False
    then show ?thesis
      using "1.IH" [OF False]
      by (subst digits_of.simps) (simp add: digits_value_append digit_val_digit_char)
  qed
qed

lemma isdigit_not_special:
  assumes "isdigit_c c"
  shows "\<not> isspace_c c" "c \<noteq> CHR ''-''" "c \<noteq> CHR ''+''" "c \<noteq> CHR '';''" "c \<noteq> NUL"
  using assms by (auto simp: isdigit_c_def isspace_c_def)

lemma takeWhile_all: "(\<And>c. c \<in> set xs \<Longrightarrow> P c) \<Longrightarrow> takeWhile P xs = xs"
  by (induction xs) auto

lemma strtoll_all_digits:
  assumes "ds \<noteq> []" and "\<And>c. c \<in> set ds \<Longrightarrow> isdigit_c c"
  shows "strtoll ds = (of_int (max LLONG_MIN (min LLONG_MAX (int (digits_value 0 ds)))), length ds)"
proof -
  obtain c cs where ds: "ds = c # cs" using assms(1) by (cases ds) auto
  have c: "isdigit_c c" using assms(2) ds by simp
  have sp: "takeWhile isspace_c ds = []" "dropWhile isspace_c ds = ds"
    using isdigit_not_special(1) [OF c] by (simp_all add: ds)
  have sg: "(case ds of [] \<Rightarrow> False | c # x \<Rightarrow> c = CHR ''-'') = False"
    "(case ds of [] \<Rightarrow> 0 | c # x \<Rightarrow> if c = CHR ''-'' \<or> c = CHR ''+'' then 1 else 0) = (0::nat)"
    using isdigit_not_special(2,3) [OF c] by (simp_all add: ds)
  have tw: "takeWhile isdigit_c ds = ds"
    using takeWhile_all [of ds isdigit_c] assms(2) by simp
  show ?thesis
    unfolding strtoll_def Let_def sp sg
    by (simp add: tw assms(1))
qed

lemma strtoll_minus_all_digits:
  assumes "ds \<noteq> []" and "\<And>c. c \<in> set ds \<Longrightarrow> isdigit_c c"
  shows "strtoll (CHR ''-'' # ds)
           = (of_int (max LLONG_MIN (min LLONG_MAX (- int (digits_value 0 ds)))), Suc (length ds))"
proof -
  have sp: "takeWhile isspace_c (CHR ''-'' # ds) = []"
    "dropWhile isspace_c (CHR ''-'' # ds) = CHR ''-'' # ds"
    by (simp_all add: isspace_c_def)
  have tw: "takeWhile isdigit_c ds = ds"
    using takeWhile_all [of ds isdigit_c] assms(2) by simp
  show ?thesis
    unfolding strtoll_def Let_def sp
    by (simp add: tw assms(1))
qed

lemma strtoll_digits:
  assumes "int n \<le> LLONG_MAX"
  shows "strtoll (digits_of n) = (of_nat n, length (digits_of n))"
proof -
  have "max LLONG_MIN (min LLONG_MAX (int n)) = int n"
    using assms by (simp add: LLONG_MIN_def)
  then show ?thesis
    using strtoll_all_digits [OF digits_of_nonempty [of n] digits_of_isdigit [of _ n]]
    by (simp add: digits_value_digits_of)
qed

lemma strtoll_minus_digits:
  assumes "LLONG_MIN \<le> - int n"
  shows "strtoll (CHR ''-'' # digits_of n) = (of_int (- int n), Suc (length (digits_of n)))"
proof -
  have "max LLONG_MIN (min LLONG_MAX (- int n)) = - int n"
    using assms by (simp add: LLONG_MAX_def)
  then show ?thesis
    using strtoll_minus_all_digits [OF digits_of_nonempty [of n] digits_of_isdigit [of _ n]]
    by (simp add: digits_value_digits_of)
qed

lemma strtoll_lld: "strtoll (lld w) = (w, length (lld w))"
proof (cases "sint w < 0")
  case True
  have "- (2 ^ 63) \<le> sint w" using sint_ge [of w] by simp
  then have "strtoll (CHR ''-'' # digits_of (nat (- sint w)))
        = (of_int (- int (nat (- sint w))), Suc (length (digits_of (nat (- sint w)))))"
    using True by (intro strtoll_minus_digits) (simp add: LLONG_MIN_def)
  then show ?thesis using True by (simp add: lld_def)
next
  case False
  have "sint w < 2 ^ 63" using sint_lt [of w] by simp
  then have "strtoll (digits_of (nat (sint w))) = (of_nat (nat (sint w)), length (digits_of (nat (sint w))))"
    using False by (intro strtoll_digits) (simp add: LLONG_MAX_def)
  then show ?thesis using False by (simp add: lld_def)
qed

lemma CLEAN_no_space:
  assumes "\<not> isspace_c c" and "c \<noteq> CHR '';''"
  shows "CLEAN \<lparr>cursor = c # cs, line = l\<rparr> = \<lparr>cursor = c # cs, line = l\<rparr>"
  using assms by (simp add: CLEAN_def skip_comments.simps peek_def)

lemma lld_head:
  "\<exists>c cs. lld w = c # cs \<and> \<not> isspace_c c \<and> c \<noteq> CHR '';'' \<and> c \<noteq> NUL
      \<and> (isdigit_c c \<or> (c = CHR ''-'' \<and> isdigit_c (peek cs)))"
proof -
  obtain d ds where ds: "digits_of (nat \<bar>sint w\<bar>) = d # ds"
    using digits_of_nonempty [of "nat \<bar>sint w\<bar>"] by (cases "digits_of (nat \<bar>sint w\<bar>)") auto
  have d: "isdigit_c d" using digits_of_isdigit [of d "nat \<bar>sint w\<bar>"] ds by simp
  show ?thesis
  proof (cases "sint w < 0")
    case True
    then have "lld w = CHR ''-'' # d # ds" using ds by (simp add: lld_def abs_if)
    then show ?thesis using d by (simp add: peek_def isspace_c_def)
  next
    case False
    then have "lld w = d # ds" using ds by (simp add: lld_def abs_if)
    then show ?thesis using d isdigit_not_special [OF d] by simp
  qed
qed

lemma int_round_trip:
  "parse_node n \<lparr>cursor = node_to_string (INT_ATOM w), line = l\<rparr>
     = Return (INT_ATOM w, \<lparr>cursor = [], line = l\<rparr>)"
proof -
  obtain c cs where h: "lld w = c # cs" "\<not> isspace_c c" "c \<noteq> CHR '';''" "c \<noteq> NUL"
      "isdigit_c c \<or> (c = CHR ''-'' \<and> isdigit_c (peek cs))"
    using lld_head [of w] by blast
  have st: "strtoll (c # cs) = (w, Suc (length cs))"
    using strtoll_lld [of w] h(1) by simp
  show ?thesis
    using h(2-5) st
    by (subst parse_node.simps) (simp add: h(1) CLEAN_no_space peek_def Let_def)
qed

lemma skip_space_length: "length (fst (skip_space cs l)) \<le> length cs"
  by (induction cs arbitrary: l) (auto simp: le_SucI)

lemma skip_comments_length: "length (fst (skip_comments cur l)) \<le> length cur"
proof (induction cur l rule: skip_comments.induct)
  case (1 cur l)
  show ?case
  proof (cases "peek cur = CHR '';''")
    case False
    then show ?thesis by (simp add: skip_comments.simps)
  next
    case True
    obtain cur' l' where sk: "skip_space (dropWhile (\<lambda>c. c \<noteq> NUL \<and> c \<noteq> CHR 0x0A) cur) l = (cur', l')"
      by (cases "skip_space (dropWhile (\<lambda>c. c \<noteq> NUL \<and> c \<noteq> CHR 0x0A) cur) l") auto
    have "length (fst (skip_comments cur' l')) \<le> length cur'"
      using "1.IH" [OF True sk [symmetric]] .
    also have "length cur' \<le> length (dropWhile (\<lambda>c. c \<noteq> NUL \<and> c \<noteq> CHR 0x0A) cur)"
      using skip_space_length [of "dropWhile (\<lambda>c. c \<noteq> NUL \<and> c \<noteq> CHR 0x0A) cur" l] sk by simp
    also have "\<dots> \<le> length cur" by (rule length_dropWhile_le)
    finally show ?thesis using True sk by (simp add: skip_comments.simps)
  qed
qed

lemma CLEAN_length: "length (cursor (CLEAN st)) \<le> length (cursor st)"
proof -
  obtain cur l where a: "skip_space (cursor st) (line st) = (cur, l)"
    by (cases "skip_space (cursor st) (line st)") auto
  obtain cur' l' where b: "skip_comments cur l = (cur', l')"
    by (cases "skip_comments cur l") auto
  have "length cur' \<le> length cur" using skip_comments_length [of cur l] b by simp
  also have "\<dots> \<le> length (cursor st)" using skip_space_length [of "cursor st" "line st"] a by simp
  finally show ?thesis by (simp add: CLEAN_def a b)
qed

lemma escape_switch_length: "length (escape_switch c) \<le> 2"
  by (simp add: escape_switch_def)

lemma materialise_length:
  "length (materialise prev xs) \<le> length xs + (if prev = Some (CHR 0x5C) then 1 else 0)"
proof (induction xs arbitrary: prev)
  case Nil
  show ?case by simp
next
  case (Cons c cs)
  show ?case
    using Cons.IH [of "Some c"] escape_switch_length [of c]
    by (cases "c = CHR 0x5C") auto
qed

lemma c_str_length: "length (c_str s) \<le> length s"
  by (simp add: c_str_def length_takeWhile_le)

lemma parsed_string_shorter:
  assumes "parse_node n st = Return (STRING_ATOM s', st')"
  shows "length s' < length (cursor st)"
proof -
  let ?cur = "cursor (CLEAN st)"
  have q: "peek ?cur = CHR 0x22" and s': "s' = materialise None (take (scan_string None (tl ?cur)) (tl ?cur))"
    using assms
    by (subst (asm) parse_node.simps, simp add: Let_def split: if_splits prod.splits nat.splits outcome.splits)+
  from q have ne: "?cur \<noteq> []" by (auto simp: peek_def)
  have "length s' \<le> length (take (scan_string None (tl ?cur)) (tl ?cur))"
    using materialise_length [of None "take (scan_string None (tl ?cur)) (tl ?cur)"] s' by simp
  also have "\<dots> \<le> length (tl ?cur)" by simp
  also have "\<dots> < length ?cur" using ne by simp
  also have "\<dots> \<le> length (cursor st)" by (rule CLEAN_length)
  finally show ?thesis .
qed

lemma string_never_round_trips:
  "parse_node n \<lparr>cursor = node_to_string (STRING_ATOM s), line = l\<rparr> \<noteq> Return (STRING_ATOM s, st')"
proof
  assume "parse_node n \<lparr>cursor = node_to_string (STRING_ATOM s), line = l\<rparr> = Return (STRING_ATOM s, st')"
  then have "length s < length (c_str s)"
    using parsed_string_shorter [of n "\<lparr>cursor = node_to_string (STRING_ATOM s), line = l\<rparr>" s st'] by simp
  then show False using c_str_length [of s] by simp
qed

lemma scan_string_plain:
  "plain s \<Longrightarrow> prev \<noteq> Some (CHR 0x5C) \<Longrightarrow> scan_string prev (s @ CHR 0x22 # rest) = length s"
  by (induction s arbitrary: prev) (auto simp: plain_def)

lemma materialise_plain:
  "plain s \<Longrightarrow> prev \<noteq> Some (CHR 0x5C) \<Longrightarrow> materialise prev s = s"
  by (induction s arbitrary: prev) (auto simp: plain_def)

lemma c_str_plain: "plain s \<Longrightarrow> c_str s = s"
  by (induction s) (auto simp: plain_def c_str_def)

lemma quoted_plain_round_trip:
  assumes "plain s"
  shows "parse_node n \<lparr>cursor = CHR 0x22 # node_to_string (STRING_ATOM s) @ [CHR 0x22], line = l\<rparr>
     = Return (STRING_ATOM s, \<lparr>cursor = [], line = l\<rparr>)"
  using assms
  by (subst parse_node.simps)
     (simp add: CLEAN_def skip_comments.simps peek_def isspace_c_def isdigit_c_def c_str_plain
        scan_string_plain materialise_plain Let_def)

text \<open>
  C5, as stated: printing a parsed Int or String literal and parsing the printed text again
  yields a node equal to the original. It does not hold for strings: the literal \<^verbatim>\<open>"abc"\<close>
  parses to the String \<^verbatim>\<open>abc\<close>, which prints as the bytes \<^verbatim>\<open>abc\<close> without quotes, and those
  parse to the Name \<^verbatim>\<open>abc\<close>.
\<close>

theorem string_round_trip_counterexample:
  "parse_node 0 \<lparr>cursor = [CHR 0x22, CHR ''a'', CHR ''b'', CHR ''c'', CHR 0x22], line = 1\<rparr>
     = Return (STRING_ATOM ''abc'', \<lparr>cursor = [], line = 1\<rparr>)
   \<and> parse_node 0 \<lparr>cursor = node_to_string (STRING_ATOM ''abc''), line = 1\<rparr>
     = Return (NAME_ATOM ''abc'', \<lparr>cursor = [], line = 1\<rparr>)"
  by (simp add: parse_node.simps CLEAN_def skip_comments.simps peek_def isspace_c_def
        isdigit_c_def c_str_def)

text \<open>
  C5, amended: round-trip printing holds for Int: printing an Int node and parsing the
  printed text yields the same node, whatever its value. A String node prints as its raw
  bytes, without quotes or escapes, so parsing the printed text never yields the original
  String; with the printed bytes put back between double quotes it does, when the bytes hold
  no quote, no backslash and no NUL.
\<close>

theorem print_parse_round_trip:
  "parse_node n \<lparr>cursor = node_to_string (INT_ATOM w), line = l\<rparr>
     = Return (INT_ATOM w, \<lparr>cursor = [], line = l\<rparr>)
   \<and> parse_node n \<lparr>cursor = node_to_string (STRING_ATOM s), line = l\<rparr>
       \<noteq> Return (STRING_ATOM s, st')
   \<and> (plain s \<longrightarrow>
        parse_node n \<lparr>cursor = CHR 0x22 # node_to_string (STRING_ATOM s) @ [CHR 0x22], line = l\<rparr>
          = Return (STRING_ATOM s, \<lparr>cursor = [], line = l\<rparr>))"
  using int_round_trip [of n w l] string_never_round_trips [of n s l st']
    quoted_plain_round_trip [of s n l]
  by blast

theorem print_parse_round_trip_witness:
  "plain ''abc''
   \<and> parse_node 0 \<lparr>cursor = node_to_string (INT_ATOM (- 42)), line = 1\<rparr>
       = Return (INT_ATOM (- 42), \<lparr>cursor = [], line = 1\<rparr>)
   \<and> parse_node 0 \<lparr>cursor = CHR 0x22 # node_to_string (STRING_ATOM ''abc'') @ [CHR 0x22], line = 1\<rparr>
       = Return (STRING_ATOM ''abc'', \<lparr>cursor = [], line = 1\<rparr>)"
proof -
  have p: "plain ''abc''" by (simp add: plain_def)
  show ?thesis
    using p print_parse_round_trip [of 0 "- 42" 1 "''abc''" "\<lparr>cursor = [], line = 1\<rparr>"]
    by blast
qed

subsection \<open>The format engine\<close>

lemma directive_body_split:
  assumes "CHR ''}'' \<notin> set body"
  shows "takeWhile (\<lambda>c. c \<noteq> CHR ''}'') (body @ CHR ''}'' # rest) = body"
    and "dropWhile (\<lambda>c. c \<noteq> CHR ''}'') (body @ CHR ''}'' # rest) = CHR ''}'' # rest"
proof -
  have all: "\<And>x. x \<in> set body \<Longrightarrow> x \<noteq> CHR ''}''" using assms by auto
  show "takeWhile (\<lambda>c. c \<noteq> CHR ''}'') (body @ CHR ''}'' # rest) = body"
    using all by (simp add: takeWhile_append2)
  show "dropWhile (\<lambda>c. c \<noteq> CHR ''}'') (body @ CHR ''}'' # rest) = CHR ''}'' # rest"
    using all by (simp add: dropWhile_append2)
qed

lemma percent_not_alpha: "\<not> isalpha_c (CHR ''%'')"
  by (simp add: isalpha_c_def)

lemma do_fmt_loop_no_brace:
  "CHR ''{'' \<notin> set fmt \<Longrightarrow> do_fmt_loop L nodes fmt lastc idx chars = Return (chars @ fmt)"
proof (induction fmt arbitrary: lastc chars)
  case Nil
  show ?case by (simp add: do_fmt_loop.simps)
next
  case (Cons c fmt)
  from Cons.prems have c: "c \<noteq> CHR ''{''" and fmt: "CHR ''{'' \<notin> set fmt" by auto
  show ?case
    using c Cons.IH [OF fmt] by (subst do_fmt_loop.simps) simp
qed

lemma fmt_directive_with_conversion:
  assumes "lastc \<noteq> CHR 0x5C"
    and "CHR ''}'' \<notin> set body"
    and "body \<noteq> []" and "isalpha_c (last body)"
    and "length body \<le> 62"
    and "int (idx + (if CHR ''*'' \<in> set body then 1 else 0)) < array_len nodes"
    and "CHR ''{'' \<notin> set rest"
  shows "do_fmt_loop L nodes (CHR ''{'' # body @ CHR ''}'' # rest) lastc idx chars =
           (case asprintf L (CHR ''%'' # body)
                   (if CHR ''*'' \<in> set body
                    then [A_payload (nodes ! idx), A_payload (nodes ! (idx + 1))]
                    else [A_payload (nodes ! idx)]) of
              None \<Rightarrow> Undefined
            | Some str \<Rightarrow> Return (chars @ c_str str @ rest))"
proof -
  have na: "isalpha_c (last (CHR ''%'' # body))"
    using assms(3,4) by auto
  show ?thesis
    using assms(1,5,6) na
    by (subst do_fmt_loop.simps)
       (simp add: directive_body_split [OF assms(2)] Let_def do_fmt_loop_no_brace [OF assms(7)]
          split: option.splits del: last.simps)
qed

lemma fmt_directive_without_conversion:
  assumes "lastc \<noteq> CHR 0x5C"
    and "CHR ''}'' \<notin> set body"
    and "body = [] \<or> \<not> isalpha_c (last body)"
    and "length body \<le> 61"
    and "int (idx + (if CHR ''*'' \<in> set body then 1 else 0)) < array_len nodes"
    and "CHR ''{'' \<notin> set rest"
  shows "do_fmt_loop L nodes (CHR ''{'' # body @ CHR ''}'' # rest) lastc idx chars =
           (case asprintf L (CHR ''%'' # body @ ''s'')
                   (if CHR ''*'' \<in> set body
                    then [A_payload (nodes ! idx), A_str (node_to_string (nodes ! (idx + 1)))]
                    else [A_str (node_to_string (nodes ! idx))]) of
              None \<Rightarrow> Undefined
            | Some str \<Rightarrow> Return (chars @ c_str str @ rest))"
proof -
  have na: "\<not> isalpha_c (last (CHR ''%'' # body))"
    using assms(3) percent_not_alpha by auto
  show ?thesis
    using assms(1,4,5) na
    by (subst do_fmt_loop.simps)
       (simp add: directive_body_split [OF assms(2)] Let_def do_fmt_loop_no_brace [OF assms(6)]
          split: option.splits del: last.simps)
qed

lemma fmt_directive_overflows_buffer:
  assumes "lastc \<noteq> CHR 0x5C"
    and "CHR ''}'' \<notin> set body"
    and "body = [] \<or> \<not> isalpha_c (last body)"
    and "61 < length body"
    and "int (idx + (if CHR ''*'' \<in> set body then 1 else 0)) < array_len nodes"
  shows "do_fmt_loop L nodes (CHR ''{'' # body @ CHR ''}'' # rest) lastc idx chars = Undefined"
proof -
  have na: "\<not> isalpha_c (last (CHR ''%'' # body))"
    using assms(3) percent_not_alpha by auto
  show ?thesis
    using assms(1,4,5) na
    by (subst do_fmt_loop.simps)
       (simp add: directive_body_split [OF assms(2)] Let_def del: last.simps)
qed

lemma minus_not_alpha: "\<not> isalpha_c (CHR ''-'')"
  by (simp add: isalpha_c_def)

text \<open>
  C9: in the format engine, every directive whose body does not end in an alphabetic
  conversion character is string-valued: the value argument is stringified with the node
  printer and the directive is expanded with an \<^verbatim>\<open>s\<close> appended to its body. The code does so
  for a body of up to 61 bytes: \<^verbatim>\<open>[fmt "{-...-}" 3]\<close> with 61 \<^verbatim>\<open>-\<close> flags passes \<^verbatim>\<open>%-...-s\<close> and
  the printed argument to \<^verbatim>\<open>asprintf\<close>. With 62 flags the \<^verbatim>\<open>s\<close> fills the last of the 64 bytes
  of \<^verbatim>\<open>buff\<close> and the NUL that ends the directive is written past the buffer.
\<close>

theorem long_fmt_directive_overflows_buffer:
  "do_fmt L [NAME_ATOM ''fmt'', STRING_ATOM (CHR ''{'' # replicate 62 (CHR ''-'') @ ''}''),
             INT_ATOM 3] = Undefined
   \<and> do_fmt L [NAME_ATOM ''fmt'', STRING_ATOM (CHR ''{'' # replicate 61 (CHR ''-'') @ ''}''),
               INT_ATOM 3]
       = (case asprintf L (CHR ''%'' # replicate 61 (CHR ''-'') @ ''s'') [A_str ''3''] of
            None \<Rightarrow> Undefined
          | Some str \<Rightarrow> Return (c_str str))"
proof -
  have three: "lld 3 = ''3''" by code_simp
  have body: "CHR ''}'' \<notin> set (replicate k (CHR ''-''))"
    "CHR ''*'' \<notin> set (replicate k (CHR ''-''))"
    "NUL \<notin> set (replicate k (CHR ''-''))"
    "replicate k (CHR ''-'') = [] \<or> \<not> isalpha_c (last (replicate k (CHR ''-'')))" for k
    using minus_not_alpha by (cases k; simp)+
  have str: "c_str (CHR ''{'' # replicate k (CHR ''-'') @ ''}'')
               = CHR ''{'' # replicate k (CHR ''-'') @ CHR ''}'' # []" for k
    using body(3) [of k] by (auto simp: c_str_def)
  have long: "do_fmt_loop L [NAME_ATOM ''fmt'',
                 STRING_ATOM (CHR ''{'' # replicate 62 (CHR ''-'') @ ''}''), INT_ATOM 3]
               (CHR ''{'' # replicate 62 (CHR ''-'') @ CHR ''}'' # []) NUL 2 [] = Undefined"
    by (rule fmt_directive_overflows_buffer [OF _ body(1) body(4)])
       (simp_all add: body(2) array_len_def)
  have short: "do_fmt_loop L [NAME_ATOM ''fmt'',
                 STRING_ATOM (CHR ''{'' # replicate 61 (CHR ''-'') @ ''}''), INT_ATOM 3]
               (CHR ''{'' # replicate 61 (CHR ''-'') @ CHR ''}'' # []) NUL 2 []
             = (case asprintf L (CHR ''%'' # replicate 61 (CHR ''-'') @ ''s'') [A_str ''3''] of
                  None \<Rightarrow> Undefined
                | Some str \<Rightarrow> Return (c_str str))"
    using fmt_directive_without_conversion [OF _ body(1) body(4), of NUL 61 2
        "[NAME_ATOM ''fmt'', STRING_ATOM (CHR ''{'' # replicate 61 (CHR ''-'') @ ''}''), INT_ATOM 3]"
        "[]" L "[]"]
    by (simp add: body(2) array_len_def three cong: option.case_cong)
  show ?thesis
    using long short by (simp add: do_fmt_def str)
qed

subsection \<open>Copies\<close>

lemma those_map_Some:
  "those (map f xs) = Some ys \<longleftrightarrow> list_all2 (\<lambda>x y. f x = Some y) xs ys"
proof (induction xs arbitrary: ys)
  case Nil
  show ?case by auto
next
  case (Cons x xs)
  show ?case
    by (cases "f x") (auto simp: Cons.IH list_all2_Cons1)
qed

lemma copy_nodes_Some:
  "copy_nodes xs = Some ys \<longleftrightarrow> list_all2 (\<lambda>x y. copy_node x = Some y) xs ys"
  by (simp add: copy_nodes_def those_map_Some)

lemma c_str_idem: "c_str (c_str s) = c_str s"
  by (simp add: c_str_def)

lemma c_str_no_NUL: "NUL \<notin> set s \<Longrightarrow> c_str s = s"
  by (induction s) (auto simp: c_str_def)

lemma NUL_notin_c_str: "NUL \<notin> set (c_str s)"
  by (auto simp: c_str_def dest: set_takeWhileD)

lemma copy_node_idem: "copy_node x = Some y \<Longrightarrow> copy_node y = Some y"
proof (induction x arbitrary: y)
  case (LIST cs)
  from LIST.prems obtain ys where y: "y = LIST ys"
    and all: "list_all2 (\<lambda>x y. copy_node x = Some y) cs ys"
    by (auto simp: those_map_Some)
  have len: "length cs = length ys" using all by (rule list_all2_lengthD)
  have "copy_node (ys ! i) = Some (ys ! i)" if "i < length ys" for i
  proof -
    have "copy_node (cs ! i) = Some (ys ! i)"
      using all that by (simp add: list_all2_conv_all_nth)
    moreover have "cs ! i \<in> set cs" using that len by simp
    ultimately show ?thesis using LIST.IH by blast
  qed
  then have "list_all2 (\<lambda>x y. copy_node x = Some y) ys ys"
    by (simp add: list_all2_conv_all_nth)
  then show ?case by (simp add: y those_map_Some)
qed (auto simp: c_str_idem)

lemma copy_nodes_idem: "copy_nodes xs = Some ys \<Longrightarrow> copy_nodes ys = Some ys"
  using copy_node_idem [of "LIST xs" "LIST ys"] by (auto simp: copy_nodes_def)

lemma copy_nodes_length: "copy_nodes xs = Some ys \<Longrightarrow> length ys = length xs"
  by (auto simp: copy_nodes_Some dest: list_all2_lengthD)

lemma copy_node_LIST_normal:
  "copy_node (LIST xs) = Some (LIST xs) \<longleftrightarrow> copy_nodes xs = Some xs"
  by (auto simp: copy_nodes_def)

lemma copy_nodes_Cons:
  "copy_nodes (x # xs) = Some zs \<longleftrightarrow>
     (\<exists>y ys. zs = y # ys \<and> copy_node x = Some y \<and> copy_nodes xs = Some ys)"
  by (cases zs) (auto simp: copy_nodes_Some)

lemma copy_nodes_append:
  "copy_nodes xs = Some xs' \<Longrightarrow> copy_nodes ys = Some ys' \<Longrightarrow> copy_nodes (xs @ ys) = Some (xs' @ ys')"
  by (auto simp: copy_nodes_Some intro: list_all2_appendI)

lemma copy_nodes_nth:
  "copy_nodes xs = Some ys \<Longrightarrow> i < length xs \<Longrightarrow> copy_node (xs ! i) = Some (ys ! i)"
  by (auto simp: copy_nodes_Some dest: list_all2_nthD)

lemma copy_nodes_tl:
  "copy_nodes xs = Some ys \<Longrightarrow> copy_nodes (tl xs) = Some (tl ys)"
  by (cases xs; cases ys) (auto simp: copy_nodes_Some)

subsection \<open>Evaluation yields values\<close>

lemma bind_Return_iff: "bind m f = Return x \<longleftrightarrow> (\<exists>y. m = Return y \<and> f y = Return x)"
  by (cases m) auto

lemma is_value_copy: "copy_node x = Some y \<Longrightarrow> is_value y"
  by (simp add: is_value_def copy_node_idem)

lemma is_value_INT [simp]: "is_value (INT_ATOM i)"
  by (simp add: is_value_def)

lemma is_value_LIST_copies: "copy_nodes xs = Some ys \<Longrightarrow> is_value (LIST ys)"
  using copy_nodes_idem [of xs ys] by (simp add: is_value_def copy_nodes_def)

lemma is_value_STRING: "NUL \<notin> set s \<Longrightarrow> is_value (STRING_ATOM s)"
  by (simp add: is_value_def c_str_no_NUL)

lemma do_fmt_loop_no_NUL:
  "do_fmt_loop L nodes fmt lastc idx chars = Return s \<Longrightarrow> NUL \<notin> set fmt \<Longrightarrow> NUL \<notin> set chars
     \<Longrightarrow> NUL \<notin> set s"
proof (induction "length fmt" arbitrary: fmt lastc idx chars rule: less_induct)
  case less
  show ?case
  proof (cases fmt)
    case Nil
    with less.prems show ?thesis by (simp add: do_fmt_loop.simps)
  next
    case (Cons c rest)
    have rest: "NUL \<notin> set rest" and c: "c \<noteq> NUL" using less.prems(2) Cons by auto
    let ?after = "dropWhile (\<lambda>c. c \<noteq> CHR ''}'') rest"
    have sub: "set (tl ?after) \<subseteq> set rest"
    proof -
      have "set (tl xs) \<subseteq> set xs" for xs :: string by (cases xs) auto
      then show ?thesis using set_dropWhileD by fastforce
    qed
    have after: "NUL \<notin> set (tl ?after)" using sub rest by auto
    have shorter: "length (tl ?after) < length fmt"
      using length_dropWhile_le [of "\<lambda>c. c \<noteq> CHR ''}''" rest] by (simp add: Cons)
    have bl: "NUL \<notin> set (butlast chars)"
      using less.prems(3) by (auto dest: in_set_butlastD)
    show ?thesis
    proof (cases "c = CHR ''{''")
      case False
      from less.prems(1) have "do_fmt_loop L nodes rest c idx (chars @ [c]) = Return s"
        using Cons False by (subst (asm) do_fmt_loop.simps) simp
      then show ?thesis
        using less.hyps [of rest c idx "chars @ [c]"] rest c less.prems(3) by (simp add: Cons)
    next
      case brace: True
      show ?thesis
      proof (cases "lastc = CHR 0x5C")
        case True
        from less.prems(1)
        have "do_fmt_loop L nodes rest c idx (butlast chars @ [c]) = Return s"
          using Cons brace True by (subst (asm) do_fmt_loop.simps) simp
        then show ?thesis
          using less.hyps [of rest c idx "butlast chars @ [c]"] rest c bl by (simp add: Cons)
      next
        case False
        from less.prems(1)
        have "s = chars \<or> (\<exists>str idx'.
                do_fmt_loop L nodes (tl ?after) (CHR ''}'') idx' (chars @ c_str str) = Return s)"
          using Cons brace False
          by (subst (asm) do_fmt_loop.simps) (auto simp: Let_def split: if_splits option.splits)
        then show ?thesis
        proof
          assume "s = chars"
          then show ?thesis using less.prems(3) by simp
        next
          assume "\<exists>str idx'.
                do_fmt_loop L nodes (tl ?after) (CHR ''}'') idx' (chars @ c_str str) = Return s"
          then obtain str idx' where
            r: "do_fmt_loop L nodes (tl ?after) (CHR ''}'') idx' (chars @ c_str str) = Return s"
            by blast
          have "NUL \<notin> set (chars @ c_str str)"
            using less.prems(3) NUL_notin_c_str [of str] by simp
          then show ?thesis
            using less.hyps [OF shorter r after] by simp
        qed
      qed
    qed
  qed
qed

lemma yields_valuesD:
  "yields_values interp \<Longrightarrow> interp e st = Return (v, st') \<Longrightarrow> v = INVALID \<or> is_value v"
  by (auto simp: yields_values_def)

lemma is_value_LIST_append:
  "is_value (LIST xs) \<Longrightarrow> is_value (LIST ys) \<Longrightarrow> is_value (LIST (xs @ ys))"
  using copy_nodes_append [of xs xs ys ys]
  by (simp add: is_value_def copy_node_LIST_normal del: copy_node.simps)

lemma run_body_value:
  assumes "yields_values interp"
  shows "run_body interp es r st = Return (v, st') \<Longrightarrow> r = INVALID \<or> is_value r
           \<Longrightarrow> v = INVALID \<or> is_value v"
proof (induction es arbitrary: r st)
  case Nil
  then show ?case by auto
next
  case (Cons e es)
  from Cons.prems(1) obtain r1 st1 where e: "interp e st = Return (r1, st1)"
    and rest: "run_body interp es r1 st1 = Return (v, st')"
    by (auto simp: bind_Return_iff)
  show ?case
    using Cons.IH [OF rest] yields_valuesD [OF assms e] by blast
qed

lemma interpret_program_value:
  assumes "yields_values interp"
  shows "interpret_program interp cs r st = Return (v, st') \<Longrightarrow> r = INVALID \<or> is_value r
           \<Longrightarrow> v = INVALID \<or> is_value v"
proof (induction cs arbitrary: r st)
  case Nil
  then show ?case by auto
next
  case (Cons e es)
  from Cons.prems(1) obtain r1 st1 where e: "interp e st = Return (r1, st1)"
    and rest: "interpret_program interp es r1 st1 = Return (v, st')"
    by (auto simp: bind_Return_iff)
  show ?case
    using Cons.IH [OF rest] yields_valuesD [OF assms e] by blast
qed

lemma interpret_if_value:
  assumes "yields_values interp" and "interpret_if interp cs st = Return (v, st')"
  shows "v = INVALID \<or> is_value v"
  using assms(2) yields_valuesD [OF assms(1)]
  by (auto simp: interpret_if_def bind_Return_iff split: if_splits)

lemma interpret_define_value:
  assumes "interpret_define cs st = Return (v, st')"
  shows "is_value v"
  using assms
  by (auto simp: interpret_define_def Let_def is_value_copy split: if_splits option.splits)

lemma argument_reference_value:
  assumes "argument_reference nm st = Return (v, st')"
  shows "is_value v"
  using assms
  by (auto simp: argument_reference_def Let_def is_value_copy split: if_splits option.splits prod.splits)

lemma int_args_value:
  assumes "int_args nodes f = Return (v, st')"
    and "\<And>a b. f a b = Return (v, st') \<Longrightarrow> is_value v"
  shows "is_value v"
  using assms by (auto simp: int_args_def split: option.splits)

lemma apply_function_plus:
  "apply_function L interp ''+'' nodes st = int_args nodes (\<lambda>a b. Return (INT_ATOM (a + b), st))"
  by (simp add: apply_function_def)

lemma apply_function_minus:
  "apply_function L interp ''-'' nodes st = int_args nodes (\<lambda>a b. Return (INT_ATOM (a - b), st))"
  by (simp add: apply_function_def)

lemma apply_function_times:
  "apply_function L interp ''*'' nodes st = int_args nodes (\<lambda>a b. Return (INT_ATOM (a * b), st))"
  by (simp add: apply_function_def)

lemma apply_function_divide:
  "apply_function L interp ''/'' nodes st = int_args nodes (\<lambda>a b. case c_div a b of None \<Rightarrow> Undefined | Some q \<Rightarrow> Return (INT_ATOM q, st))"
  by (simp add: apply_function_def)

lemma apply_function_modulo:
  "apply_function L interp ''%'' nodes st = int_args nodes (\<lambda>a b. case c_mod a b of None \<Rightarrow> Undefined | Some r \<Rightarrow> Return (INT_ATOM r, st))"
  by (simp add: apply_function_def)

lemma apply_function_eq:
  "apply_function L interp ''=='' nodes st = int_args nodes (\<lambda>a b. Return (make_bool (a = b), st))"
  by (simp add: apply_function_def)

lemma apply_function_neq:
  "apply_function L interp ''!='' nodes st = int_args nodes (\<lambda>a b. Return (make_bool (a \<noteq> b), st))"
  by (simp add: apply_function_def)

lemma apply_function_less:
  "apply_function L interp ''<'' nodes st = int_args nodes (\<lambda>a b. Return (make_bool (sint a < sint b), st))"
  by (simp add: apply_function_def)

lemma apply_function_le:
  "apply_function L interp ''<='' nodes st = int_args nodes (\<lambda>a b. Return (make_bool (sint a \<le> sint b), st))"
  by (simp add: apply_function_def)

lemma apply_function_greater:
  "apply_function L interp ''>'' nodes st = int_args nodes (\<lambda>a b. Return (make_bool (sint a > sint b), st))"
  by (simp add: apply_function_def)

lemma apply_function_ge:
  "apply_function L interp ''>='' nodes st = int_args nodes (\<lambda>a b. Return (make_bool (sint a \<ge> sint b), st))"
  by (simp add: apply_function_def)

lemma apply_function_list:
  "apply_function L interp ''list'' nodes st =
     (case copy_nodes (tl nodes) of None \<Rightarrow> Undefined | Some elems \<Rightarrow> Return (LIST elems, st))"
  by (simp add: apply_function_def)

lemma apply_function_len:
  "apply_function L interp ''len'' nodes st =
     (case check nodes [Some K_LIST] of
        Some e \<Rightarrow> Exit e
      | None \<Rightarrow> Return (INT_ATOM (of_int (array_len (children (nodes ! 1)))), st))"
  by (simp add: apply_function_def)

lemma apply_function_append:
  "apply_function L interp ''append'' nodes st =
     (case check nodes [Some K_LIST, Some K_LIST] of
        Some e \<Rightarrow> Exit e
      | None \<Rightarrow>
         (case copy_nodes (children (nodes ! 1)) of
            None \<Rightarrow> Undefined
          | Some xs \<Rightarrow>
             (case copy_nodes (children (nodes ! 2)) of
                None \<Rightarrow> Undefined
              | Some ys \<Rightarrow> Return (LIST (xs @ ys), st))))"
  by (simp add: apply_function_def)

lemma apply_function_car:
  "apply_function L interp ''car'' nodes st =
     (case check nodes [Some K_LIST] of
        Some e \<Rightarrow> Exit e
      | None \<Rightarrow>
         (if array_len (children (nodes ! 1)) < 1 then Exit E_car_empty
          else case copy_node (children (nodes ! 1) ! 0) of
                 None \<Rightarrow> Undefined
               | Some r \<Rightarrow> Return (r, st)))"
  by (simp add: apply_function_def Let_def split: option.splits)

lemma apply_function_cdr:
  "apply_function L interp ''cdr'' nodes st =
     (case check nodes [Some K_LIST] of
        Some e \<Rightarrow> Exit e
      | None \<Rightarrow>
         (case copy_nodes (tl (children (nodes ! 1))) of
            None \<Rightarrow> Undefined
          | Some elems \<Rightarrow> Return (LIST elems, st)))"
  by (simp add: apply_function_def)

lemma apply_function_rand:
  "apply_function L interp ''rand'' nodes st =
     Return (INT_ATOM (rand L (rand_calls st)), st\<lparr>rand_calls := Suc (rand_calls st)\<rparr>)"
  by (simp add: apply_function_def)

lemma apply_function_print:
  "apply_function L interp ''print'' nodes st =
     (case check nodes [None] of
        Some e \<Rightarrow> Exit e
      | None \<Rightarrow>
         (case copy_node (nodes ! 1) of
            None \<Rightarrow> Undefined
          | Some r \<Rightarrow>
             Return (r, st\<lparr>stdout := stdout st @ c_str (node_to_string (nodes ! 1)) @ [CHR 0x0A]\<rparr>)))"
  by (simp add: apply_function_def Let_def split: option.splits)

lemma apply_function_fmt:
  "apply_function L interp ''fmt'' nodes st =
     (if array_len nodes < 2 then Exit E_fmt_expects
      else if kind_of (nodes ! 1) \<noteq> K_STRING_ATOM then Exit E_fmt_first
      else bind (do_fmt L nodes) (\<lambda>s. Return (STRING_ATOM s, st)))"
  by (simp add: apply_function_def)

lemma apply_function_pfmt:
  "apply_function L interp ''pfmt'' nodes st =
     (if array_len nodes < 2 then Exit E_pfmt_expects
      else if kind_of (nodes ! 1) \<noteq> K_STRING_ATOM then Exit E_pfmt_first
      else bind (do_fmt L nodes) (\<lambda>s.
             Return (STRING_ATOM s, st\<lparr>stdout := stdout st @ c_str s\<rparr>)))"
  by (simp add: apply_function_def)

lemma apply_function_user:
  assumes "nm \<notin> set builtin_names"
  shows "apply_function L interp nm nodes st =
     (case functions_table st nm of
        Some lookup \<Rightarrow>
          (case copy_nodes nodes of
             None \<Rightarrow> Undefined
           | Some apply_args \<Rightarrow>
              (case copy_nodes lookup of
                 None \<Rightarrow> Undefined
               | Some fn_exprs \<Rightarrow>
                  bind (run_body interp fn_exprs INVALID (st\<lparr>args := args st @ [apply_args]\<rparr>))
                    (\<lambda>(result, st2). Return (result, st2\<lparr>args := butlast (args st2)\<rparr>))))
      | None \<Rightarrow> Exit (E_unknown_function nm))"
proof -
  have "nm \<noteq> ''+''" "nm \<noteq> ''-''" "nm \<noteq> ''*''" "nm \<noteq> ''/''" "nm \<noteq> ''%''" "nm \<noteq> ''==''"
    "nm \<noteq> ''!=''" "nm \<noteq> ''<''" "nm \<noteq> ''<=''" "nm \<noteq> ''>''" "nm \<noteq> ''>=''" "nm \<noteq> ''list''"
    "nm \<noteq> ''len''" "nm \<noteq> ''append''" "nm \<noteq> ''car''" "nm \<noteq> ''cdr''" "nm \<noteq> ''rand''"
    "nm \<noteq> ''print''" "nm \<noteq> ''fmt''" "nm \<noteq> ''pfmt''"
    using assms unfolding builtin_names_def by fastforce+
  then show ?thesis
    unfolding apply_function_def by (simp only: if_False Let_def)
qed

lemma int_args_Return:
  "int_args nodes f = Return x \<Longrightarrow> f (integer (nodes ! 1)) (integer (nodes ! 2)) = Return x"
  by (auto simp: int_args_def split: option.splits)

lemma apply_function_value:
  assumes "yields_values interp" and r: "apply_function L interp nm nodes st = Return (v, st')"
  shows "v = INVALID \<or> is_value v"
proof (cases "nm \<in> set builtin_names")
  case False
  from r obtain fn_exprs st1 st2 where "run_body interp fn_exprs INVALID st1 = Return (v, st2)"
    unfolding apply_function_user [OF False]
    by (auto simp: bind_Return_iff split: option.splits)
  then show ?thesis
    using run_body_value [OF assms(1)] by blast
next
  case True
  then consider "nm = ''+''" | "nm = ''-''" | "nm = ''*''" | "nm = ''/''" | "nm = ''%''"
    | "nm = ''==''" | "nm = ''!=''" | "nm = ''<''" | "nm = ''<=''" | "nm = ''>''" | "nm = ''>=''"
    | "nm = ''list''" | "nm = ''len''" | "nm = ''append''" | "nm = ''car''" | "nm = ''cdr''"
    | "nm = ''rand''" | "nm = ''print''" | "nm = ''fmt''" | "nm = ''pfmt''"
    unfolding builtin_names_def by fastforce
  then have "is_value v"
  proof cases
    case 1 with r show ?thesis by (auto simp: apply_function_plus dest!: int_args_Return)
  next
    case 2 with r show ?thesis by (auto simp: apply_function_minus dest!: int_args_Return)
  next
    case 3 with r show ?thesis by (auto simp: apply_function_times dest!: int_args_Return)
  next
    case 4 with r show ?thesis
      by (auto simp: apply_function_divide dest!: int_args_Return split: option.splits)
  next
    case 5 with r show ?thesis
      by (auto simp: apply_function_modulo dest!: int_args_Return split: option.splits)
  next
    case 6 with r show ?thesis
      by (auto simp: apply_function_eq make_bool_def dest!: int_args_Return)
  next
    case 7 with r show ?thesis
      by (auto simp: apply_function_neq make_bool_def dest!: int_args_Return)
  next
    case 8 with r show ?thesis
      by (auto simp: apply_function_less make_bool_def dest!: int_args_Return)
  next
    case 9 with r show ?thesis
      by (auto simp: apply_function_le make_bool_def dest!: int_args_Return)
  next
    case 10 with r show ?thesis
      by (auto simp: apply_function_greater make_bool_def dest!: int_args_Return)
  next
    case 11 with r show ?thesis
      by (auto simp: apply_function_ge make_bool_def dest!: int_args_Return)
  next
    case 12 with r show ?thesis
      by (auto simp: apply_function_list is_value_LIST_copies split: option.splits)
  next
    case 13 with r show ?thesis
      by (auto simp: apply_function_len split: option.splits)
  next
    case 14 with r show ?thesis
      by (auto simp: apply_function_append split: option.splits
            dest!: is_value_LIST_copies intro: is_value_LIST_append)
  next
    case 15 with r show ?thesis
      by (auto simp: apply_function_car is_value_copy split: option.splits if_splits)
  next
    case 16 with r show ?thesis
      by (auto simp: apply_function_cdr is_value_LIST_copies split: option.splits)
  next
    case 17 with r show ?thesis by (auto simp: apply_function_rand)
  next
    case 18 with r show ?thesis
      by (auto simp: apply_function_print is_value_copy split: option.splits)
  next
    case 19 with r show ?thesis
      by (auto simp: apply_function_fmt do_fmt_def bind_Return_iff NUL_notin_c_str
            split: if_splits intro!: is_value_STRING dest!: do_fmt_loop_no_NUL)
  next
    case 20 with r show ?thesis
      by (auto simp: apply_function_pfmt do_fmt_def bind_Return_iff NUL_notin_c_str
            split: if_splits intro!: is_value_STRING dest!: do_fmt_loop_no_NUL)
  qed
  then show ?thesis ..
qed

lemma eval_args_cases:
  "eval_args interp (c # cs) st = Return (rs, st2) \<longleftrightarrow>
     (\<exists>r st1 rs'. interp c st = Return (r, st1) \<and> eval_args interp cs st1 = Return (rs', st2)
        \<and> rs = r # rs')"
  by (auto simp: bind_Return_iff)

lemma apply_node_value:
  assumes "yields_values interp" and "apply_node L interp cs st = Return (v, st')"
  shows "v = INVALID \<or> is_value v"
proof -
  from assms(2) consider
      (sf_if) st1 where "interpret_if interp cs st1 = Return (v, st')"
    | (sf_define) st1 where "interpret_define cs st1 = Return (v, st')"
    | (fn) nm nodes st2 where "apply_function L interp nm nodes st2 = Return (v, st')"
    by (auto simp: apply_node_def Let_def bind_Return_iff split: if_splits)
  then show ?thesis
  proof cases
    case sf_if
    then show ?thesis by (rule interpret_if_value [OF assms(1)])
  next
    case sf_define
    then show ?thesis using interpret_define_value by blast
  next
    case fn
    then show ?thesis by (rule apply_function_value [OF assms(1)])
  qed
qed

lemma interpret_node_yields_values: "yields_values (interpret_node L n)"
proof (induction n)
  case 0
  show ?case by (simp add: yields_values_def)
next
  case (Suc n)
  show ?case
    unfolding yields_values_def
  proof (intro allI impI)
    fix e st v st'
    assume r: "interpret_node L (Suc n) e st = Return (v, st')"
    show "v = INVALID \<or> is_value v"
    proof (cases e)
      case INVALID
      with r show ?thesis by (simp add: interpret_simps)
    next
      case (PROGRAM cs)
      with r show ?thesis
        using interpret_program_value [OF Suc, of cs INVALID st v st'] by (simp add: interpret_simps)
    next
      case (LIST cs)
      with r show ?thesis
        using apply_node_value [OF Suc, of L cs st v st'] by (simp add: interpret_simps)
    next
      case (INT_ATOM i)
      with r show ?thesis by (auto simp: interpret_simps)
    next
      case (STRING_ATOM s)
      with r show ?thesis by (auto simp: interpret_simps is_value_def c_str_idem)
    next
      case (NAME_ATOM s)
      with r show ?thesis
        using argument_reference_value [of s st v st']
        by (auto simp: interpret_simps is_value_def c_str_idem split: if_splits)
    qed
  qed
qed

lemma evaluated_list_is_value:
  assumes "interpret_node L n e st = Return (LIST xs, st')"
  shows "copy_nodes xs = Some xs"
  using yields_valuesD [OF interpret_node_yields_values assms]
  by (simp add: is_value_def copy_nodes_def)

subsection \<open>A deeper call stack changes no result\<close>

lemma extendsD: "extends f g \<Longrightarrow> f e st \<noteq> OutOfFuel \<Longrightarrow> g e st = f e st"
  by (simp add: extends_def)

lemma bind_OutOfFuel_iff:
  "bind m k = OutOfFuel \<longleftrightarrow> m = OutOfFuel \<or> (\<exists>x. m = Return x \<and> k x = OutOfFuel)"
  by (cases m) auto

lemma eval_args_extends:
  assumes "extends f g"
  shows "eval_args f cs st \<noteq> OutOfFuel \<Longrightarrow> eval_args g cs st = eval_args f cs st"
proof (induction cs arbitrary: st)
  case Nil
  show ?case by simp
next
  case (Cons c cs)
  from Cons.prems have c: "f c st \<noteq> OutOfFuel" by (auto simp: bind_OutOfFuel_iff)
  then have g: "g c st = f c st" by (rule extendsD [OF assms])
  show ?case
  proof (cases "f c st")
    case (Return x)
    obtain r st1 where x: "x = (r, st1)" by (cases x)
    have "eval_args f cs st1 \<noteq> OutOfFuel"
      using Cons.prems Return x by (auto simp: bind_OutOfFuel_iff)
    then show ?thesis using Cons.IH [of st1] g Return x by simp
  qed (simp_all add: g)
qed

lemma run_body_extends:
  assumes "extends f g"
  shows "run_body f es r st \<noteq> OutOfFuel \<Longrightarrow> run_body g es r st = run_body f es r st"
proof (induction es arbitrary: r st)
  case Nil
  show ?case by simp
next
  case (Cons e es)
  from Cons.prems have c: "f e st \<noteq> OutOfFuel" by (auto simp: bind_OutOfFuel_iff)
  then have g: "g e st = f e st" by (rule extendsD [OF assms])
  show ?case
  proof (cases "f e st")
    case (Return x)
    obtain r1 st1 where x: "x = (r1, st1)" by (cases x)
    have "run_body f es r1 st1 \<noteq> OutOfFuel"
      using Cons.prems Return x by simp
    then show ?thesis using Cons.IH [of r1 st1] g Return x by simp
  qed (simp_all add: g)
qed

lemma interpret_program_extends:
  assumes "extends f g"
  shows "interpret_program f es r st \<noteq> OutOfFuel
           \<Longrightarrow> interpret_program g es r st = interpret_program f es r st"
proof (induction es arbitrary: r st)
  case Nil
  show ?case by simp
next
  case (Cons e es)
  from Cons.prems have c: "f e st \<noteq> OutOfFuel" by (auto simp: bind_OutOfFuel_iff)
  then have g: "g e st = f e st" by (rule extendsD [OF assms])
  show ?case
  proof (cases "f e st")
    case (Return x)
    obtain r1 st1 where x: "x = (r1, st1)" by (cases x)
    have "interpret_program f es r1 st1 \<noteq> OutOfFuel"
      using Cons.prems Return x by simp
    then show ?thesis using Cons.IH [of r1 st1] g Return x by simp
  qed (simp_all add: g)
qed

lemma interpret_if_extends:
  assumes "extends f g" and "interpret_if f cs st \<noteq> OutOfFuel"
  shows "interpret_if g cs st = interpret_if f cs st"
proof (cases "array_len cs < 3")
  case True
  then show ?thesis by (simp add: interpret_if_def)
next
  case False
  from assms(2) False have c: "f (cs ! 1) st \<noteq> OutOfFuel"
    by (auto simp: interpret_if_def bind_OutOfFuel_iff)
  then have g: "g (cs ! 1) st = f (cs ! 1) st" by (rule extendsD [OF assms(1)])
  show ?thesis
  proof (cases "f (cs ! 1) st")
    case (Return x)
    obtain cond st1 where x: "x = (cond, st1)" by (cases x)
    show ?thesis
      using assms(2) False Return x g extendsD [OF assms(1), of "cs ! 2" st1]
        extendsD [OF assms(1), of "cs ! 3" st1]
      by (auto simp: interpret_if_def)
  qed (use g False in \<open>simp_all add: interpret_if_def\<close>)
qed

lemma apply_function_builtin_interp:
  assumes "nm \<in> set builtin_names"
  shows "apply_function L f nm nodes st = apply_function L g nm nodes st"
proof -
  from assms consider "nm = ''+''" | "nm = ''-''" | "nm = ''*''" | "nm = ''/''" | "nm = ''%''"
    | "nm = ''==''" | "nm = ''!=''" | "nm = ''<''" | "nm = ''<=''" | "nm = ''>''" | "nm = ''>=''"
    | "nm = ''list''" | "nm = ''len''" | "nm = ''append''" | "nm = ''car''" | "nm = ''cdr''"
    | "nm = ''rand''" | "nm = ''print''" | "nm = ''fmt''" | "nm = ''pfmt''"
    unfolding builtin_names_def by fastforce
  then show ?thesis
  proof cases
    case 1 then show ?thesis by (simp only: apply_function_plus)
  next
    case 2 then show ?thesis by (simp only: apply_function_minus)
  next
    case 3 then show ?thesis by (simp only: apply_function_times)
  next
    case 4 then show ?thesis by (simp only: apply_function_divide)
  next
    case 5 then show ?thesis by (simp only: apply_function_modulo)
  next
    case 6 then show ?thesis by (simp only: apply_function_eq)
  next
    case 7 then show ?thesis by (simp only: apply_function_neq)
  next
    case 8 then show ?thesis by (simp only: apply_function_less)
  next
    case 9 then show ?thesis by (simp only: apply_function_le)
  next
    case 10 then show ?thesis by (simp only: apply_function_greater)
  next
    case 11 then show ?thesis by (simp only: apply_function_ge)
  next
    case 12 then show ?thesis by (simp only: apply_function_list)
  next
    case 13 then show ?thesis by (simp only: apply_function_len)
  next
    case 14 then show ?thesis by (simp only: apply_function_append)
  next
    case 15 then show ?thesis by (simp only: apply_function_car)
  next
    case 16 then show ?thesis by (simp only: apply_function_cdr)
  next
    case 17 then show ?thesis by (simp only: apply_function_rand)
  next
    case 18 then show ?thesis by (simp only: apply_function_print)
  next
    case 19 then show ?thesis by (simp only: apply_function_fmt)
  next
    case 20 then show ?thesis by (simp only: apply_function_pfmt)
  qed
qed

lemma apply_function_extends:
  assumes "extends f g" and "apply_function L f nm nodes st \<noteq> OutOfFuel"
  shows "apply_function L g nm nodes st = apply_function L f nm nodes st"
proof (cases "nm \<in> set builtin_names")
  case True
  then show ?thesis by (rule apply_function_builtin_interp [symmetric])
next
  case False
  show ?thesis
  proof (cases "functions_table st nm")
    case None
    then show ?thesis by (simp add: apply_function_user [OF False])
  next
    case (Some lookup)
    show ?thesis
    proof (cases "copy_nodes nodes")
      case None
      then show ?thesis by (simp add: apply_function_user [OF False] Some)
    next
      case frame: (Some apply_args)
      show ?thesis
      proof (cases "copy_nodes lookup")
        case None
        then show ?thesis by (simp add: apply_function_user [OF False] Some frame)
      next
        case body: (Some fn_exprs)
        have "run_body f fn_exprs INVALID (st\<lparr>args := args st @ [apply_args]\<rparr>) \<noteq> OutOfFuel"
          using assms(2) by (auto simp: apply_function_user [OF False] Some frame body)
        then show ?thesis
          using run_body_extends [OF assms(1)]
          by (simp add: apply_function_user [OF False] Some frame body)
      qed
    qed
  qed
qed

lemma apply_node_extends:
  assumes "extends f g" and "apply_node L f cs st \<noteq> OutOfFuel"
  shows "apply_node L g cs st = apply_node L f cs st"
proof (cases "array_len cs < 1")
  case True
  then show ?thesis by (simp add: apply_node_def)
next
  case False
  from assms(2) False have c: "f (cs ! 0) st \<noteq> OutOfFuel"
    by (auto simp: apply_node_def bind_OutOfFuel_iff)
  then have g: "g (cs ! 0) st = f (cs ! 0) st" by (rule extendsD [OF assms(1)])
  show ?thesis
  proof (cases "f (cs ! 0) st")
    case (Return x)
    obtain first st1 where x: "x = (first, st1)" by (cases x)
    let ?nm = "c_str (name first)"
    show ?thesis
    proof (cases "kind_of first \<noteq> K_NAME_ATOM \<or> ?nm = ''define''")
      case True
      then show ?thesis by (auto simp: apply_node_def False g Return x)
    next
      case ok: False
      show ?thesis
      proof (cases "?nm = ''if''")
        case True
        then have "interpret_if f cs st1 \<noteq> OutOfFuel"
          using assms(2) ok by (simp add: apply_node_def False Return x)
        then show ?thesis
          using interpret_if_extends [OF assms(1)] True ok
          by (simp add: apply_node_def False g Return x)
      next
        case nif: False
        have ev: "eval_args f (tl cs) st1 \<noteq> OutOfFuel"
          using assms(2) ok nif by (auto simp: apply_node_def False Return x bind_OutOfFuel_iff)
        then have ge: "eval_args g (tl cs) st1 = eval_args f (tl cs) st1"
          by (rule eval_args_extends [OF assms(1)])
        show ?thesis
        proof (cases "eval_args f (tl cs) st1")
          case r: (Return y)
          obtain results st2 where y: "y = (results, st2)" by (cases y)
          have "apply_function L f ?nm (first # results) st2 \<noteq> OutOfFuel"
            using assms(2) ok nif by (simp add: apply_node_def False Return x r y)
          then show ?thesis
            using apply_function_extends [OF assms(1)] ok nif
            by (simp add: apply_node_def False g Return x ge r y)
        qed (use ok nif in \<open>simp_all add: apply_node_def False g Return x ge\<close>)
      qed
    qed
  qed (simp_all add: apply_node_def False g)
qed

lemma interpret_node_Suc_extends: "extends (interpret_node L n) (interpret_node L (Suc n))"
proof (induction n)
  case 0
  show ?case by (simp add: extends_def)
next
  case (Suc n)
  show ?case
    unfolding extends_def
  proof (intro allI impI)
    fix e st
    assume d: "interpret_node L (Suc n) e st \<noteq> OutOfFuel"
    show "interpret_node L (Suc (Suc n)) e st = interpret_node L (Suc n) e st"
    proof (cases e)
      case (PROGRAM cs)
      with d show ?thesis
        using interpret_program_extends [OF Suc, of cs INVALID st] by (simp add: interpret_simps)
    next
      case (LIST cs)
      with d show ?thesis
        using apply_node_extends [OF Suc, of L cs st] by (simp add: interpret_simps)
    qed (simp_all add: interpret_simps)
  qed
qed

lemma interpret_node_more_fuel:
  assumes "interpret_node L n e st \<noteq> OutOfFuel"
  shows "interpret_node L (n + k) e st = interpret_node L n e st"
proof (induction k)
  case 0
  show ?case by simp
next
  case (Suc k)
  have "interpret_node L (n + k) e st \<noteq> OutOfFuel" using Suc assms by simp
  then show ?case
    using extendsD [OF interpret_node_Suc_extends, of L "n + k" e st] Suc by simp
qed

subsection \<open>Built-in list functions\<close>

lemma interpret_call:
  assumes "peek nm \<noteq> CHR '':''" and "c_str nm = nm" and "nm \<noteq> ''if''" and "nm \<noteq> ''define''"
  shows "interpret_node L (Suc (Suc n)) (LIST (NAME_ATOM nm # argexprs)) st =
           bind (eval_args (interpret_node L (Suc n)) argexprs st) (\<lambda>(vals, st').
             apply_function L (interpret_node L (Suc n)) nm (NAME_ATOM nm # vals) st')"
  using assms by (simp add: interpret_LIST interpret_NAME apply_node_def array_len_def)

lemma call_list_empty:
  "interpret_node L (Suc (Suc n)) (LIST [NAME_ATOM ''list'']) st = Return (LIST [], st)"
  by (simp add: interpret_call peek_def c_str_def apply_function_list copy_nodes_def)

lemma call_append:
  assumes "interpret_node L (Suc n) a st = Return (LIST xs, st1)"
    and "interpret_node L (Suc n) b st1 = Return (LIST ys, st2)"
  shows "interpret_node L (Suc (Suc n)) (LIST [NAME_ATOM ''append'', a, b]) st
           = Return (LIST (xs @ ys), st2)"
  using assms evaluated_list_is_value [OF assms(1)] evaluated_list_is_value [OF assms(2)]
  by (simp add: interpret_call peek_def c_str_def apply_function_append check_def array_len_def)

lemma call_len:
  assumes "interpret_node L (Suc n) a st = Return (LIST xs, st1)"
  shows "interpret_node L (Suc (Suc n)) (LIST [NAME_ATOM ''len'', a]) st
           = Return (INT_ATOM (of_nat (length xs)), st1)"
  using assms
  by (simp add: interpret_call peek_def c_str_def apply_function_len check_def array_len_def)

lemma call_cdr:
  assumes "interpret_node L (Suc n) a st = Return (LIST xs, st1)"
  shows "interpret_node L (Suc (Suc n)) (LIST [NAME_ATOM ''cdr'', a]) st
           = Return (LIST (tl xs), st1)"
  using assms copy_nodes_tl [OF evaluated_list_is_value [OF assms]]
  by (simp add: interpret_call peek_def c_str_def apply_function_cdr check_def array_len_def)

lemma call_car:
  assumes "interpret_node L (Suc n) a st = Return (LIST (x # xs), st1)"
  shows "interpret_node L (Suc (Suc n)) (LIST [NAME_ATOM ''car'', a]) st = Return (x, st1)"
  using assms evaluated_list_is_value [OF assms]
  by (simp add: interpret_call peek_def c_str_def apply_function_car check_def array_len_def
        copy_nodes_Cons)

lemma call_list:
  assumes "eval_args (interpret_node L (Suc n)) es st = Return (vs, st1)"
    and "copy_nodes vs = Some vs"
  shows "interpret_node L (Suc (Suc n)) (LIST (NAME_ATOM ''list'' # es)) st = Return (LIST vs, st1)"
  using assms
  by (simp add: interpret_call peek_def c_str_def apply_function_list)

lemma call_minus:
  assumes "interpret_node L (Suc n) a st = Return (INT_ATOM i, st1)"
    and "interpret_node L (Suc n) b st1 = Return (INT_ATOM j, st2)"
  shows "interpret_node L (Suc (Suc n)) (LIST [NAME_ATOM ''-'', a, b]) st
           = Return (INT_ATOM (i - j), st2)"
  using assms
  by (simp add: interpret_call peek_def c_str_def apply_function_minus int_args_def check_def
        INT_KINDS_def array_len_def)

lemma call_plus:
  assumes "interpret_node L (Suc n) a st = Return (INT_ATOM i, st1)"
    and "interpret_node L (Suc n) b st1 = Return (INT_ATOM j, st2)"
  shows "interpret_node L (Suc (Suc n)) (LIST [NAME_ATOM ''+'', a, b]) st
           = Return (INT_ATOM (i + j), st2)"
  using assms
  by (simp add: interpret_call peek_def c_str_def apply_function_plus int_args_def check_def
        INT_KINDS_def array_len_def)

lemma eval_args_values:
  assumes "eval_args (interpret_node L n) es st = Return (vs, st1)" and "INVALID \<notin> set vs"
  shows "copy_nodes vs = Some vs"
  using assms
proof (induction es arbitrary: st vs)
  case Nil
  then show ?case by (simp add: copy_nodes_def)
next
  case (Cons e es)
  from Cons.prems(1) obtain r st' rs where e: "interpret_node L n e st = Return (r, st')"
    and rest: "eval_args (interpret_node L n) es st' = Return (rs, st1)" and vs: "vs = r # rs"
    by (auto simp: bind_Return_iff)
  have "is_value r"
    using yields_valuesD [OF interpret_node_yields_values e] Cons.prems(2) vs by auto
  moreover have "copy_nodes rs = Some rs"
    using Cons.IH [OF rest] Cons.prems(2) vs by simp
  ultimately show ?case by (simp add: vs copy_nodes_Cons is_value_def)
qed

text \<open>
  C8: list structural laws. For every expression L that evaluates to a list value,
  \<^verbatim>\<open>[append [list] L]\<close> and \<^verbatim>\<open>[append L [list]]\<close> evaluate to that value; for all expressions
  A and B that evaluate to lists, \<^verbatim>\<open>[len [append A B]]\<close> and \<^verbatim>\<open>[+ [len A] [len B]]\<close> evaluate to the
  same Int; \<^verbatim>\<open>[car [list X ...]]\<close> evaluates to the value of X; and when L evaluates to a list
  with at least one element, \<^verbatim>\<open>[len [cdr L]]\<close> and \<^verbatim>\<open>[- [len L] 1]\<close> evaluate to the same Int.
  Each side is evaluated from the same state and ends in the same state.
\<close>

theorem list_structural_laws:
  "(interpret_node L (Suc n) l st = Return (LIST xs, st1) \<longrightarrow>
      interpret_node L (Suc (Suc (Suc n)))
        (LIST [NAME_ATOM ''append'', LIST [NAME_ATOM ''list''], l]) st = Return (LIST xs, st1)
      \<and> interpret_node L (Suc (Suc (Suc n)))
        (LIST [NAME_ATOM ''append'', l, LIST [NAME_ATOM ''list'']]) st = Return (LIST xs, st1))
   \<and> (interpret_node L (Suc n) a st = Return (LIST as, st1)
        \<and> interpret_node L (Suc n) b st1 = Return (LIST bs, st2) \<longrightarrow>
      interpret_node L (Suc (Suc (Suc n)))
        (LIST [NAME_ATOM ''len'', LIST [NAME_ATOM ''append'', a, b]]) st
        = interpret_node L (Suc (Suc (Suc n)))
            (LIST [NAME_ATOM ''+'', LIST [NAME_ATOM ''len'', a], LIST [NAME_ATOM ''len'', b]]) st
      \<and> interpret_node L (Suc (Suc (Suc n)))
        (LIST [NAME_ATOM ''len'', LIST [NAME_ATOM ''append'', a, b]]) st
        = Return (INT_ATOM (of_nat (length as) + of_nat (length bs)), st2))
   \<and> (interpret_node L (Suc n) x st = Return (v, st1) \<and> v \<noteq> INVALID
        \<and> eval_args (interpret_node L (Suc n)) rest st1 = Return (vs, st2)
        \<and> INVALID \<notin> set vs \<longrightarrow>
      interpret_node L (Suc (Suc (Suc n)))
        (LIST [NAME_ATOM ''car'', LIST (NAME_ATOM ''list'' # x # rest)]) st = Return (v, st2))
   \<and> (interpret_node L (Suc n) l st = Return (LIST xs, st1) \<and> xs \<noteq> [] \<longrightarrow>
      interpret_node L (Suc (Suc (Suc n))) (LIST [NAME_ATOM ''len'', LIST [NAME_ATOM ''cdr'', l]]) st
        = interpret_node L (Suc (Suc (Suc n)))
            (LIST [NAME_ATOM ''-'', LIST [NAME_ATOM ''len'', l], INT_ATOM 1]) st
      \<and> interpret_node L (Suc (Suc (Suc n))) (LIST [NAME_ATOM ''len'', LIST [NAME_ATOM ''cdr'', l]]) st
        = Return (INT_ATOM (of_nat (length xs) - 1), st1))"
proof (intro conjI impI)
  assume l1: "interpret_node L (Suc n) l st = Return (LIST xs, st1)"
  have l: "interpret_node L (Suc (Suc n)) l st = Return (LIST xs, st1)"
    using interpret_node_more_fuel [of L "Suc n" l st 1] l1 by simp
  show "interpret_node L (Suc (Suc (Suc n)))
        (LIST [NAME_ATOM ''append'', LIST [NAME_ATOM ''list''], l]) st = Return (LIST xs, st1)"
    using call_append [OF call_list_empty l] by simp
  show "interpret_node L (Suc (Suc (Suc n)))
        (LIST [NAME_ATOM ''append'', l, LIST [NAME_ATOM ''list'']]) st = Return (LIST xs, st1)"
    using call_append [OF l call_list_empty] by simp
next
  assume ab: "interpret_node L (Suc n) a st = Return (LIST as, st1)
        \<and> interpret_node L (Suc n) b st1 = Return (LIST bs, st2)"
  have lhs: "interpret_node L (Suc (Suc (Suc n)))
        (LIST [NAME_ATOM ''len'', LIST [NAME_ATOM ''append'', a, b]]) st
        = Return (INT_ATOM (of_nat (length as) + of_nat (length bs)), st2)"
    using call_len [OF call_append [OF conjunct1 [OF ab] conjunct2 [OF ab]]] by simp
  have rhs: "interpret_node L (Suc (Suc (Suc n)))
            (LIST [NAME_ATOM ''+'', LIST [NAME_ATOM ''len'', a], LIST [NAME_ATOM ''len'', b]]) st
        = Return (INT_ATOM (of_nat (length as) + of_nat (length bs)), st2)"
    using call_plus [OF call_len [OF conjunct1 [OF ab]] call_len [OF conjunct2 [OF ab]]] .
  show "interpret_node L (Suc (Suc (Suc n)))
        (LIST [NAME_ATOM ''len'', LIST [NAME_ATOM ''append'', a, b]]) st
        = interpret_node L (Suc (Suc (Suc n)))
            (LIST [NAME_ATOM ''+'', LIST [NAME_ATOM ''len'', a], LIST [NAME_ATOM ''len'', b]]) st"
    using lhs rhs by simp
  show "interpret_node L (Suc (Suc (Suc n)))
        (LIST [NAME_ATOM ''len'', LIST [NAME_ATOM ''append'', a, b]]) st
        = Return (INT_ATOM (of_nat (length as) + of_nat (length bs)), st2)"
    by (rule lhs)
next
  assume h: "interpret_node L (Suc n) x st = Return (v, st1) \<and> v \<noteq> INVALID
        \<and> eval_args (interpret_node L (Suc n)) rest st1 = Return (vs, st2)
        \<and> INVALID \<notin> set vs"
  then have ev: "eval_args (interpret_node L (Suc n)) (x # rest) st = Return (v # vs, st2)"
    by simp
  have "copy_nodes (v # vs) = Some (v # vs)"
    using eval_args_values [OF ev] h by auto
  from call_car [OF call_list [OF ev this]]
  show "interpret_node L (Suc (Suc (Suc n)))
        (LIST [NAME_ATOM ''car'', LIST (NAME_ATOM ''list'' # x # rest)]) st = Return (v, st2)" .
next
  assume h: "interpret_node L (Suc n) l st = Return (LIST xs, st1) \<and> xs \<noteq> []"
  have lhs: "interpret_node L (Suc (Suc (Suc n))) (LIST [NAME_ATOM ''len'', LIST [NAME_ATOM ''cdr'', l]]) st
        = Return (INT_ATOM (of_nat (length xs) - 1), st1)"
    using call_len [OF call_cdr [OF conjunct1 [OF h]]] h by (simp add: of_nat_diff Suc_leI)
  have rhs: "interpret_node L (Suc (Suc (Suc n)))
            (LIST [NAME_ATOM ''-'', LIST [NAME_ATOM ''len'', l], INT_ATOM 1]) st
        = Return (INT_ATOM (of_nat (length xs) - 1), st1)"
    using call_minus [OF call_len [OF conjunct1 [OF h]] interpret_INT [of L "Suc n" 1 st1]] .
  show "interpret_node L (Suc (Suc (Suc n))) (LIST [NAME_ATOM ''len'', LIST [NAME_ATOM ''cdr'', l]]) st
        = interpret_node L (Suc (Suc (Suc n)))
            (LIST [NAME_ATOM ''-'', LIST [NAME_ATOM ''len'', l], INT_ATOM 1]) st"
    using lhs rhs by simp
  show "interpret_node L (Suc (Suc (Suc n))) (LIST [NAME_ATOM ''len'', LIST [NAME_ATOM ''cdr'', l]]) st
        = Return (INT_ATOM (of_nat (length xs) - 1), st1)"
    by (rule lhs)
qed

theorem list_structural_laws_witness:
  "interpret_node libc0 (Suc (Suc (Suc 0))) (LIST [NAME_ATOM ''list'', INT_ATOM 1, INT_ATOM 2])
       initial_state = Return (LIST [INT_ATOM 1, INT_ATOM 2], initial_state)
   \<and> interpret_node libc0 (Suc (Suc (Suc (Suc 0))))
       (LIST [NAME_ATOM ''append'', LIST [NAME_ATOM ''list''],
              LIST [NAME_ATOM ''list'', INT_ATOM 1, INT_ATOM 2]]) initial_state
       = Return (LIST [INT_ATOM 1, INT_ATOM 2], initial_state)
   \<and> interpret_node libc0 (Suc (Suc (Suc (Suc 0))))
       (LIST [NAME_ATOM ''append'', LIST [NAME_ATOM ''list'', INT_ATOM 1, INT_ATOM 2],
              LIST [NAME_ATOM ''list'']]) initial_state
       = Return (LIST [INT_ATOM 1, INT_ATOM 2], initial_state)
   \<and> interpret_node libc0 (Suc (Suc (Suc (Suc 0))))
       (LIST [NAME_ATOM ''len'', LIST [NAME_ATOM ''append'',
              LIST [NAME_ATOM ''list'', INT_ATOM 1, INT_ATOM 2], LIST [NAME_ATOM ''list'', INT_ATOM 3]]])
       initial_state
       = Return (INT_ATOM 3, initial_state)
   \<and> interpret_node libc0 (Suc (Suc (Suc (Suc 0))))
       (LIST [NAME_ATOM ''car'', LIST [NAME_ATOM ''list'', INT_ATOM 7, INT_ATOM 8]]) initial_state
       = Return (INT_ATOM 7, initial_state)
   \<and> interpret_node libc0 (Suc (Suc (Suc (Suc 0))))
       (LIST [NAME_ATOM ''len'', LIST [NAME_ATOM ''cdr'',
              LIST [NAME_ATOM ''list'', INT_ATOM 1, INT_ATOM 2]]]) initial_state
       = Return (INT_ATOM 1, initial_state)"
proof -
  let ?l = "LIST [NAME_ATOM ''list'', INT_ATOM 1, INT_ATOM 2]"
  let ?b = "LIST [NAME_ATOM ''list'', INT_ATOM 3]"
  have l: "interpret_node libc0 (Suc (Suc n)) ?l initial_state
             = Return (LIST [INT_ATOM 1, INT_ATOM 2], initial_state)" for n
    by (simp add: interpret_call peek_def c_str_def apply_function_list copy_nodes_def interpret_INT)
  have b: "interpret_node libc0 (Suc (Suc n)) ?b initial_state
             = Return (LIST [INT_ATOM 3], initial_state)" for n
    by (simp add: interpret_call peek_def c_str_def apply_function_list copy_nodes_def interpret_INT)
  have x: "interpret_node libc0 (Suc (Suc 0)) (INT_ATOM 7) initial_state
             = Return (INT_ATOM 7, initial_state) \<and> INT_ATOM 7 \<noteq> INVALID
           \<and> eval_args (interpret_node libc0 (Suc (Suc 0))) [INT_ATOM 8] initial_state
             = Return ([INT_ATOM 8], initial_state)
           \<and> INVALID \<notin> set [INT_ATOM 8]"
    by (simp add: interpret_INT)
  have ne: "[INT_ATOM 1, INT_ATOM 2] \<noteq> []" by simp
  note t = list_structural_laws [of libc0 "Suc 0" ?l initial_state "[INT_ATOM 1, INT_ATOM 2]"
      initial_state ?l "[INT_ATOM 1, INT_ATOM 2]" ?b "[INT_ATOM 3]" initial_state
      "INT_ATOM 7" "INT_ATOM 7" "[INT_ATOM 8]" "[INT_ATOM 8]"]
  have t1: "interpret_node libc0 (Suc (Suc (Suc (Suc 0))))
       (LIST [NAME_ATOM ''append'', LIST [NAME_ATOM ''list''], ?l]) initial_state
       = Return (LIST [INT_ATOM 1, INT_ATOM 2], initial_state)
     \<and> interpret_node libc0 (Suc (Suc (Suc (Suc 0))))
       (LIST [NAME_ATOM ''append'', ?l, LIST [NAME_ATOM ''list'']]) initial_state
       = Return (LIST [INT_ATOM 1, INT_ATOM 2], initial_state)"
    using t l [of 0] by blast
  have t2: "interpret_node libc0 (Suc (Suc (Suc (Suc 0))))
       (LIST [NAME_ATOM ''len'', LIST [NAME_ATOM ''append'', ?l, ?b]]) initial_state
       = Return (INT_ATOM (of_nat (length [INT_ATOM 1, INT_ATOM 2]) + of_nat (length [INT_ATOM 3])),
                 initial_state)"
    using t l [of 0] b [of 0] by blast
  have t3: "interpret_node libc0 (Suc (Suc (Suc (Suc 0))))
       (LIST [NAME_ATOM ''car'', LIST (NAME_ATOM ''list'' # INT_ATOM 7 # [INT_ATOM 8])]) initial_state
       = Return (INT_ATOM 7, initial_state)"
    using t x by blast
  have t4: "interpret_node libc0 (Suc (Suc (Suc (Suc 0))))
       (LIST [NAME_ATOM ''len'', LIST [NAME_ATOM ''cdr'', ?l]]) initial_state
       = Return (INT_ATOM (of_nat (length [INT_ATOM 1, INT_ATOM 2]) - 1), initial_state)"
    using t l [of 0] ne by blast
  show ?thesis using l [of "Suc 0"] t1 t2 t3 t4 by simp
qed

subsection \<open>User functions and redefinition\<close>


lemma copy_nodes_middle:
  assumes "copy_nodes (xs @ y # zs) = Some (xs @ y # zs)"
  shows "copy_node y = Some y"
proof -
  have "list_all2 (\<lambda>x y. copy_node x = Some y) (xs @ y # zs) (xs @ y # zs)"
    using assms by (simp add: copy_nodes_Some)
  then have "copy_node ((xs @ y # zs) ! length xs) = Some ((xs @ y # zs) ! length xs)"
    by (rule list_all2_nthD) simp
  then show ?thesis by simp
qed





end
